theory Spec2Isabelle
  imports Main "HOL-Library.Word" "HOL-Library.Sublist"
begin

section \<open>The browser run orchestrator of \<^verbatim>\<open>src/browser/index.ts\<close>\<close>

text \<open>
  \<^verbatim>\<open>runBrowserMode\<close> is one straight-line asynchronous function: it validates the
  prompt, resolves the configuration, creates a temporary profile directory, launches
  the browser, and then drives the page inside a \<^verbatim>\<open>try / catch / finally\<close>.
  All it does is call collaborators that live in other modules (\<^verbatim>\<open>chromeLifecycle\<close>,
  \<^verbatim>\<open>cookies\<close>, \<^verbatim>\<open>pageActions\<close>, \<^verbatim>\<open>config\<close>, \<^verbatim>\<open>utils\<close>) or in the platform
  (\<^verbatim>\<open>mkdtemp\<close>, \<^verbatim>\<open>rm\<close>, \<^verbatim>\<open>Date.now\<close>). Each call site is executed at most once, so
  the behaviour of the surroundings is a record with one field per call site, holding
  what that call does when it is reached: the lines it writes through the logger it was
  handed and the value it returns or throws. Quantifying over that record covers every
  behaviour of the collaborators.

  The model keeps, in order, every call the function issues together with how it ended
  (the trace), and every line passed to the logger.
\<close>

subsection \<open>JavaScript strings\<close>

text \<open>A JavaScript string is a sequence of UTF-16 code units; \<^verbatim>\<open>length\<close> counts them.\<close>

type_synonym jsstring = "16 word list"

definition lit :: "string \<Rightarrow> jsstring" where
  "lit s = map of_char s"

text \<open>
  \<^verbatim>\<open>String.prototype.trim\<close> strips WhiteSpace and LineTerminator code points from both
  ends (ECMAScript: TAB, VT, FF, ZWNBSP, the space separators, LF, CR, LS, PS).
\<close>

definition isWhiteSpace :: "16 word \<Rightarrow> bool" where
  "isWhiteSpace c \<longleftrightarrow>
     c \<in> {0x0009, 0x000A, 0x000B, 0x000C, 0x000D, 0x0020, 0x00A0, 0x1680,
          0x2028, 0x2029, 0x202F, 0x205F, 0x3000, 0xFEFF}
     \<or> (0x2000 \<le> c \<and> c \<le> 0x200A)"

definition trim :: "jsstring \<Rightarrow> jsstring" where
  "trim s = rev (dropWhile isWhiteSpace (rev (dropWhile isWhiteSpace s)))"

text \<open>Decimal rendering of an integer, as a template literal renders a whole number.\<close>

fun digits :: "nat \<Rightarrow> string" where
  "digits n = (if n < 10 then [char_of (48 + n)] else digits (n div 10) @ [char_of (48 + n mod 10)])"

definition showInt :: "int \<Rightarrow> jsstring" where
  "showInt i = (if i < 0 then lit (CHR ''-'' # digits (nat (- i))) else lit (digits (nat i)))"

subsection \<open>Thrown values\<close>

text \<open>
  The \<^verbatim>\<open>catch\<close> block tells \<^verbatim>\<open>Error\<close> instances (it reads \<^verbatim>\<open>message\<close> and \<^verbatim>\<open>stack\<close>)
  from other thrown values (it renders them with \<^verbatim>\<open>String(error)\<close>).
\<close>

text \<open>
  Modelled from the spec: the third field, \<open>detail\<close>, stands for whatever else the
  error objects of the absent page driver (\<^verbatim>\<open>pageActions.ts\<close>) carry; the spec says the
  \<^verbatim>\<open>ResponseTimeout\<close> failure of \<^verbatim>\<open>waitForAssistantResponse\<close> carries the partial answer
  text. \<^verbatim>\<open>index.ts\<close> never reads it.
\<close>

datatype thrown =
    Error (message: jsstring) (stack: "jsstring option") (detail: "jsstring option")
  | NonError (rendered: jsstring)

subsection \<open>Configuration, handles and results\<close>

text \<open>
  The fields of the resolved configuration that \<^verbatim>\<open>runBrowserMode\<close> reads (the type itself
  is declared in \<^verbatim>\<open>types.ts\<close>).
\<close>

record config =
  url :: jsstring
  desiredModel :: "jsstring option"
  chromeProfile :: "jsstring option"
  inputTimeoutMs :: int
  timeoutMs :: int
  headless :: bool
  hideWindow :: bool
  keepBrowser :: bool
  cookieSync :: bool
  debug :: bool

record chrome =
  pid :: int
  port :: int

record assistant =
  a_text :: jsstring
  a_html :: "jsstring option"
  a_meta :: jsstring

record BrowserRunResult =
  answerText :: jsstring
  answerMarkdown :: jsstring
  answerHtml :: "jsstring option"
  tookMs :: int
  answerTokens :: int
  answerChars :: nat
  chromePid :: int
  chromePort :: int
  userDataDir :: jsstring

record options =
  prompt :: "jsstring option"
  logSupplied :: bool

subsection \<open>The surroundings\<close>

text \<open>What a collaborator that was handed the logger does when called.\<close>

record 'a reply =
  says :: "jsstring list"
  gives :: "thrown + 'a"

record env =
  resolveBrowserConfig :: "thrown + config"
  devtoolsTrace :: bool
  configJson :: jsstring
  mkdtemp :: "thrown + jsstring"
  launchChrome :: "chrome reply"
  registerTerminationHooks :: "unit reply"
  now_start :: int
  connectToChrome :: "unit reply"
  hideChromeWindow :: "unit reply"
  enableAll :: "thrown + unit"
  clearBrowserCookies :: "thrown + unit"
  syncCookies :: "int reply"
  navigateToChatGPT :: "unit reply"
  ensureNotBlocked :: "unit reply"
  ensurePromptReady :: "unit reply"
  ensureModelSelection :: "unit reply"
  ensurePromptReady_again :: "unit reply"
  submitPrompt :: "unit reply"
  waitForAssistantResponse :: "assistant reply"
  captureAssistantMarkdown :: "jsstring option reply"
  now_done :: int
  estimateTokenCount :: "jsstring \<Rightarrow> int"
  clientClose :: "thrown + unit"
  chromeKill :: "thrown + unit"
  rm :: "thrown + unit"
  now_cleanup :: int
  toFixed1 :: "int \<Rightarrow> jsstring"

text \<open>
  \<open>resolveBrowserConfig\<close> is the result of resolving \<^verbatim>\<open>options.config\<close>; \<open>devtoolsTrace\<close> is
  \<^verbatim>\<open>process.env.CHATGPT_DEVTOOLS_TRACE === '1'\<close>; \<open>configJson\<close> is the \<^verbatim>\<open>JSON.stringify\<close>
  text of the debug line; \<open>enableAll\<close> is the outcome of the joined \<^verbatim>\<open>Promise.all\<close> (the
  reason of whichever promise rejected first); the three \<open>now\<close> fields are the readings of
  \<^verbatim>\<open>Date.now()\<close>; \<open>toFixed1 ms\<close> is the text of \<^verbatim>\<open>(ms / 1000).toFixed(1)\<close>, a floating-point
  rendering kept abstract. The log sink and the deregistration closure are called
  unguarded by the source and are taken to return normally.
\<close>

datatype event =
    Mkdtemp
  | LaunchChrome jsstring
  | RegisterTerminationHooks jsstring bool
  | ConnectToChrome int
  | HideChromeWindow
  | NetworkEnable
  | PageEnable
  | RuntimeEnable
  | AwaitAll
  | ClearBrowserCookies
  | SyncCookies jsstring "jsstring option"
  | NavigateToChatGPT jsstring
  | EnsureNotBlocked bool
  | EnsurePromptReady int
  | EnsureModelSelection jsstring
  | SubmitPrompt jsstring
  | WaitForAssistantResponse int
  | CaptureAssistantMarkdown
  | ClientClose
  | RemoveTerminationHooks
  | ChromeKill
  | Rm jsstring

datatype ending = Returned | Threw thrown

datatype run_status = attempted | complete

record state =
  trace :: "(event \<times> ending) list"
  logged :: "jsstring list"
  client :: bool
  v_answerText :: jsstring
  v_answerMarkdown :: jsstring
  v_answerHtml :: jsstring
  runStatus :: run_status

definition init :: state where
  "init = \<lparr>trace = [], logged = [], client = False, v_answerText = [],
           v_answerMarkdown = [], v_answerHtml = [], runStatus = attempted\<rparr>"

subsection \<open>Sequencing with exceptions\<close>

type_synonym 'a act = "state \<Rightarrow> (thrown + 'a) \<times> state"

definition andThen :: "'a act \<Rightarrow> ('a \<Rightarrow> 'b act) \<Rightarrow> 'b act" where
  "andThen m f s = (case m s of (Inl e, s') \<Rightarrow> (Inl e, s') | (Inr v, s') \<Rightarrow> f v s')"

definition ret :: "'a \<Rightarrow> 'a act" where
  "ret v s = (Inr v, s)"

definition throw :: "thrown \<Rightarrow> 'a act" where
  "throw e s = (Inl e, s)"

definition how :: "thrown + 'a \<Rightarrow> ending" where
  "how r = (case r of Inl e \<Rightarrow> Threw e | Inr _ \<Rightarrow> Returned)"

text \<open>A line handed to the logger.\<close>

definition logger :: "jsstring \<Rightarrow> unit act" where
  "logger line s = (Inr (), s\<lparr>logged := logged s @ [line]\<rparr>)"

text \<open>A call of a platform or protocol operation: recorded, then returns or throws.\<close>

definition invoke :: "event \<Rightarrow> thrown + 'a \<Rightarrow> 'a act" where
  "invoke ev r s = (r, s\<lparr>trace := trace s @ [(ev, how r)]\<rparr>)"

text \<open>A call of a collaborator that was handed the logger.\<close>

definition await :: "event \<Rightarrow> 'a reply \<Rightarrow> 'a act" where
  "await ev r s =
     (gives r, s\<lparr>trace := trace s @ [(ev, how (gives r))], logged := logged s @ says r\<rparr>)"

text \<open>A call whose promise is created now and joined later.\<close>

definition issue :: "event \<Rightarrow> unit act" where
  "issue ev s = (Inr (), s\<lparr>trace := trace s @ [(ev, Returned)]\<rparr>)"

definition assign :: "(state \<Rightarrow> state) \<Rightarrow> unit act" where
  "assign f s = (Inr (), f s)"

text \<open>JavaScript truthiness of an optional string: present and not empty.\<close>

definition truthy :: "jsstring option \<Rightarrow> bool" where
  "truthy v = (case v of None \<Rightarrow> False | Some s \<Rightarrow> s \<noteq> [])"

subsection \<open>\<^verbatim>\<open>runBrowserMode\<close>\<close>

definition promptRequired :: thrown where
  "promptRequired = Error (lit ''Prompt text is required when using browser mode.'') None None"

text \<open>
  Lines 60 to 107: the part of the \<^verbatim>\<open>try\<close> block that runs once the control session
  exists.
\<close>

definition session :: "env \<Rightarrow> config \<Rightarrow> chrome \<Rightarrow> jsstring \<Rightarrow> jsstring \<Rightarrow> int \<Rightarrow> BrowserRunResult act" where
  "session E config chrome dir promptText startedAt =
    andThen (if \<not> headless config \<and> hideWindow config
             then await HideChromeWindow (hideChromeWindow E) else ret ()) (\<lambda>_.
    andThen (issue NetworkEnable) (\<lambda>_.
    andThen (issue PageEnable) (\<lambda>_.
    andThen (issue RuntimeEnable) (\<lambda>_.
    andThen (invoke AwaitAll (enableAll E)) (\<lambda>_.
    andThen (invoke ClearBrowserCookies (clearBrowserCookies E)) (\<lambda>_.
    andThen (if cookieSync config
             then andThen (await (SyncCookies (url config) (chromeProfile config)) (syncCookies E))
                    (\<lambda>cookieCount. logger
                       (if cookieCount > 0
                        then lit ''Copied '' @ showInt cookieCount @ lit '' cookies from Chrome profile ''
                             @ (case chromeProfile config of None \<Rightarrow> lit ''Default'' | Some p \<Rightarrow> p)
                        else lit ''No Chrome cookies found; continuing without session reuse''))
             else logger (lit ''Skipping Chrome cookie sync (--browser-no-cookie-sync)'')) (\<lambda>_.
    andThen (await (NavigateToChatGPT (url config)) (navigateToChatGPT E)) (\<lambda>_.
    andThen (await (EnsureNotBlocked (headless config)) (ensureNotBlocked E)) (\<lambda>_.
    andThen (await (EnsurePromptReady (inputTimeoutMs config)) (ensurePromptReady E)) (\<lambda>_.
    andThen (if truthy (desiredModel config)
             then andThen (await (EnsureModelSelection (the (desiredModel config))) (ensureModelSelection E))
                    (\<lambda>_. await (EnsurePromptReady (inputTimeoutMs config)) (ensurePromptReady_again E))
             else ret ()) (\<lambda>_.
    andThen (await (SubmitPrompt promptText) (submitPrompt E)) (\<lambda>_.
    andThen (await (WaitForAssistantResponse (timeoutMs config)) (waitForAssistantResponse E)) (\<lambda>answer.
    andThen (assign (\<lambda>s. s\<lparr>v_answerText := a_text answer,
                              v_answerHtml := (case a_html answer of None \<Rightarrow> [] | Some h \<Rightarrow> h)\<rparr>)) (\<lambda>_.
    andThen (await CaptureAssistantMarkdown (captureAssistantMarkdown E)) (\<lambda>copiedMarkdown.
    andThen (assign (\<lambda>s. s\<lparr>v_answerMarkdown := (case copiedMarkdown of None \<Rightarrow> v_answerText s | Some m \<Rightarrow> m),
                              runStatus := complete\<rparr>)) (\<lambda>_.
    (\<lambda>s. (Inr \<lparr>answerText = v_answerText s,
                answerMarkdown = v_answerMarkdown s,
                answerHtml = (if length (v_answerHtml s) > 0 then Some (v_answerHtml s) else None),
                tookMs = now_done E - startedAt,
                answerTokens = estimateTokenCount E (v_answerMarkdown s),
                answerChars = length (v_answerText s),
                chromePid = pid chrome,
                chromePort = port chrome,
                userDataDir = dir\<rparr>, s))))))))))))))))))"

text \<open>Lines 58 to 107: the \<^verbatim>\<open>try\<close> block connects, keeps the client, and goes on.\<close>

definition tryBlock :: "env \<Rightarrow> config \<Rightarrow> chrome \<Rightarrow> jsstring \<Rightarrow> jsstring \<Rightarrow> int \<Rightarrow> BrowserRunResult act" where
  "tryBlock E config chrome dir promptText startedAt =
    andThen (await (ConnectToChrome (port chrome)) (connectToChrome E)) (\<lambda>_.
    andThen (assign (\<lambda>s. s\<lparr>client := True\<rparr>)) (\<lambda>_.
    session E config chrome dir promptText startedAt))"

text \<open>Lines 108 to 114: the \<^verbatim>\<open>catch\<close> block logs and rethrows the same value.\<close>

definition messageOf :: "thrown \<Rightarrow> jsstring" where
  "messageOf error = (case error of Error m _ _ \<Rightarrow> m | NonError r \<Rightarrow> r)"

definition catchBlock :: "env \<Rightarrow> config \<Rightarrow> thrown \<Rightarrow> state \<Rightarrow> state" where
  "catchBlock E config error s =
     (let message = messageOf error;
          s1 = snd (logger (lit ''Failed to complete ChatGPT run: '' @ message) s)
      in case error of
           Error _ (Some st) _ \<Rightarrow>
             if (debug config \<or> devtoolsTrace E) \<and> st \<noteq> [] then snd (logger st s1) else s1
         | _ \<Rightarrow> s1)"

text \<open>
  Lines 115 to 134: the \<^verbatim>\<open>finally\<close> block. The failures of \<^verbatim>\<open>close\<close>, \<^verbatim>\<open>kill\<close> and
  \<^verbatim>\<open>rm\<close> are swallowed; \<open>hooks\<close> says whether \<^verbatim>\<open>removeTerminationHooks\<close> is non-null.
\<close>

definition bullet :: "16 word" where
  "bullet = 0x2022"

definition finallyBlock :: "env \<Rightarrow> config \<Rightarrow> chrome \<Rightarrow> jsstring \<Rightarrow> int \<Rightarrow> bool \<Rightarrow> state \<Rightarrow> state" where
  "finallyBlock E config chrome dir startedAt hooks s =
     (let s1 = (if client s then snd (invoke ClientClose (clientClose E) s) else s);
          s2 = (if hooks then snd (issue RemoveTerminationHooks s1) else s1)
      in if \<not> keepBrowser config
         then let s3 = snd (invoke ChromeKill (chromeKill E) s2);
                  s4 = snd (invoke (Rm dir) (rm E) s3)
              in snd (logger (lit ''Cleanup ''
                              @ (case runStatus s4 of attempted \<Rightarrow> lit ''attempted'' | complete \<Rightarrow> lit ''complete'')
                              @ lit '' '' @ [bullet] @ lit '' ''
                              @ toFixed1 E (now_cleanup E - startedAt) @ lit ''s total'') s4)
         else snd (logger (lit ''Chrome left running on port '' @ showInt (port chrome)
                           @ lit '' with profile '' @ dir) s2))"

text \<open>Lines 44 to 49: registration of the termination hooks, any failure ignored.\<close>

definition registerHooks :: "env \<Rightarrow> config \<Rightarrow> jsstring \<Rightarrow> bool act" where
  "registerHooks E config dir s =
     (case await (RegisterTerminationHooks dir (keepBrowser config)) (registerTerminationHooks E) s of
        (Inl _, s') \<Rightarrow> (Inr False, s')
      | (Inr _, s') \<Rightarrow> (Inr True, s'))"

definition guarded :: "env \<Rightarrow> config \<Rightarrow> chrome \<Rightarrow> jsstring \<Rightarrow> jsstring \<Rightarrow> bool \<Rightarrow> BrowserRunResult act" where
  "guarded E config chrome dir promptText hooks s =
     (let startedAt = now_start E;
          (r, s1) = tryBlock E config chrome dir promptText startedAt s;
          s2 = (case r of Inl error \<Rightarrow> catchBlock E config error s1 | Inr _ \<Rightarrow> s1)
      in (r, finallyBlock E config chrome dir startedAt hooks s2))"

definition steps :: "env \<Rightarrow> options \<Rightarrow> BrowserRunResult act" where
  "steps E opts =
    andThen (case map_option trim (prompt opts) of
               None \<Rightarrow> throw promptRequired
             | Some t \<Rightarrow> if t = [] then throw promptRequired else ret t) (\<lambda>promptText.
    andThen (\<lambda>s. (resolveBrowserConfig E, s)) (\<lambda>config.
    andThen (if debug config \<or> devtoolsTrace E
             then logger (lit ''[browser-mode] config: '' @ configJson E) else ret ()) (\<lambda>_.
    andThen (invoke Mkdtemp (mkdtemp E)) (\<lambda>dir.
    andThen (logger (lit ''Created temporary Chrome profile at '' @ dir)) (\<lambda>_.
    andThen (await (LaunchChrome dir) (launchChrome E)) (\<lambda>chrome.
    andThen (registerHooks E config dir) (\<lambda>hooks.
    guarded E config chrome dir promptText hooks)))))))"

text \<open>
  The call as its caller sees it: the value returned or thrown, the calls issued, and
  the lines that reached the caller's sink (none when \<^verbatim>\<open>options.log\<close> is absent, since
  the logger then defaults to a function that does nothing).
\<close>

definition runBrowserMode :: "env \<Rightarrow> options \<Rightarrow> (thrown + BrowserRunResult) \<times> state" where
  "runBrowserMode E opts =
     (case steps E opts init of
        (r, s) \<Rightarrow> (r, if logSupplied opts then s else s\<lparr>logged := []\<rparr>))"

definition outcome :: "(thrown + BrowserRunResult) \<times> state \<Rightarrow> thrown + BrowserRunResult" where
  "outcome r = fst r"

definition calls :: "(thrown + BrowserRunResult) \<times> state \<Rightarrow> event list" where
  "calls r = map fst (trace (snd r))"

definition sink :: "(thrown + BrowserRunResult) \<times> state \<Rightarrow> jsstring list" where
  "sink r = logged (snd r)"

subsection \<open>The profile directory on disk\<close>



subsection \<open>Vocabulary for the proofs\<close>

text \<open>
  A sequence of calls stops right after the first one that throws. The calls of the
  session, in the order of the source, each with how it ends, form its schedule; with
  the connection in front they form the attempt made by the \<^verbatim>\<open>try\<close> block; the calls
  of the \<^verbatim>\<open>finally\<close> block form the cleanup.
\<close>

fun upToFailure :: "(event \<times> ending) list \<Rightarrow> (event \<times> ending) list" where
  "upToFailure [] = []"
| "upToFailure ((e, Returned) # xs) = (e, Returned) # upToFailure xs"
| "upToFailure ((e, Threw t) # xs) = [(e, Threw t)]"

fun overall :: "(event \<times> ending) list \<Rightarrow> ending" where
  "overall [] = Returned"
| "overall ((e, Returned) # xs) = overall xs"
| "overall ((e, Threw t) # xs) = Threw t"

definition preparing :: "env \<Rightarrow> config \<Rightarrow> (event \<times> ending) list" where
  "preparing E config =
     (if \<not> headless config \<and> hideWindow config
      then [(HideChromeWindow, how (gives (hideChromeWindow E)))] else [])
     @ [(NetworkEnable, Returned), (PageEnable, Returned), (RuntimeEnable, Returned),
        (AwaitAll, how (enableAll E)),
        (ClearBrowserCookies, how (clearBrowserCookies E))]"

definition priming :: "env \<Rightarrow> config \<Rightarrow> (event \<times> ending) list" where
  "priming E config =
     (if cookieSync config
      then [(SyncCookies (url config) (chromeProfile config), how (gives (syncCookies E)))] else [])"

definition selecting :: "env \<Rightarrow> config \<Rightarrow> (event \<times> ending) list" where
  "selecting E config =
     (if truthy (desiredModel config)
      then [(EnsureModelSelection (the (desiredModel config)), how (gives (ensureModelSelection E))),
            (EnsurePromptReady (inputTimeoutMs config), how (gives (ensurePromptReady_again E)))]
      else [])"

definition answering :: "env \<Rightarrow> config \<Rightarrow> jsstring \<Rightarrow> (event \<times> ending) list" where
  "answering E config promptText =
     [(SubmitPrompt promptText, how (gives (submitPrompt E))),
      (WaitForAssistantResponse (timeoutMs config), how (gives (waitForAssistantResponse E))),
      (CaptureAssistantMarkdown, how (gives (captureAssistantMarkdown E)))]"

definition schedule :: "env \<Rightarrow> config \<Rightarrow> jsstring \<Rightarrow> (event \<times> ending) list" where
  "schedule E config promptText =
     preparing E config @ priming E config
     @ (NavigateToChatGPT (url config), how (gives (navigateToChatGPT E)))
     # (EnsureNotBlocked (headless config), how (gives (ensureNotBlocked E)))
     # (EnsurePromptReady (inputTimeoutMs config), how (gives (ensurePromptReady E)))
     # selecting E config @ answering E config promptText"

definition attempt :: "env \<Rightarrow> config \<Rightarrow> chrome \<Rightarrow> jsstring \<Rightarrow> (event \<times> ending) list" where
  "attempt E config chrome promptText =
     (ConnectToChrome (port chrome), how (gives (connectToChrome E))) # schedule E config promptText"

definition cleanup :: "env \<Rightarrow> config \<Rightarrow> jsstring \<Rightarrow> bool \<Rightarrow> bool \<Rightarrow> (event \<times> ending) list" where
  "cleanup E config dir connected hooks =
     (if connected then [(ClientClose, how (clientClose E))] else [])
     @ (if hooks then [(RemoveTerminationHooks, Returned)] else [])
     @ (if keepBrowser config then []
        else [(ChromeKill, how (chromeKill E)), (Rm dir, how (rm E))])"

fun phase :: "event \<Rightarrow> nat" where
  "phase Mkdtemp = 0"
| "phase (LaunchChrome _) = 0"
| "phase (RegisterTerminationHooks _ _) = 0"
| "phase ClientClose = 2"
| "phase RemoveTerminationHooks = 2"
| "phase ChromeKill = 2"
| "phase (Rm _) = 2"
| "phase _ = 1"

text \<open>
  The state in which the \<^verbatim>\<open>try\<close> block is entered, and the prompts that pass the check
  of lines 24 to 27.
\<close>

definition validPrompt :: "options \<Rightarrow> jsstring \<Rightarrow> bool" where
  "validPrompt opts p \<longleftrightarrow> (\<exists>p0. prompt opts = Some p0 \<and> trim p0 = p \<and> p \<noteq> [])"

definition entered :: "env \<Rightarrow> config \<Rightarrow> jsstring \<Rightarrow> state \<Rightarrow> state" where
  "entered E config d s =
     s\<lparr>trace := trace s @ [(Mkdtemp, Returned), (LaunchChrome d, Returned),
                (RegisterTerminationHooks d (keepBrowser config), how (gives (registerTerminationHooks E)))],
       logged := logged s
                 @ (if debug config \<or> devtoolsTrace E then [lit ''[browser-mode] config: '' @ configJson E] else [])
                 @ [lit ''Created temporary Chrome profile at '' @ d]
                 @ says (launchChrome E) @ says (registerTerminationHooks E)\<rparr>"

text \<open>
  Properties of an action that compose along \<open>andThen\<close>: the calls it adds to the trace,
  a state predicate it keeps or establishes, the value it yields and the lines it writes
  whatever the state it starts from, and agreement of two actions on states that are
  alike but for the log, or but for the trace.
\<close>

definition traces :: "'a act \<Rightarrow> (event \<times> ending) list \<Rightarrow> bool" where
  "traces m evs \<longleftrightarrow>
     (\<forall>s. trace (snd (m s)) = trace s @ upToFailure evs \<and> how (fst (m s)) = overall evs)"

definition keeps :: "(state \<Rightarrow> bool) \<Rightarrow> 'a act \<Rightarrow> bool" where
  "keeps P m \<longleftrightarrow> (\<forall>s. P s \<longrightarrow> P (snd (m s)))"

definition ensures :: "'a act \<Rightarrow> (state \<Rightarrow> bool) \<Rightarrow> bool" where
  "ensures m P \<longleftrightarrow> (\<forall>s. P (snd (m s)))"

definition results :: "'a act \<Rightarrow> thrown + 'a \<Rightarrow> bool" where
  "results m R \<longleftrightarrow> (\<forall>s. fst (m s) = R)"

definition writes :: "'a act \<Rightarrow> jsstring list \<Rightarrow> bool" where
  "writes m ls \<longleftrightarrow> (\<forall>s. logged (snd (m s)) = logged s @ ls)"

definition agree :: "(state \<Rightarrow> state \<Rightarrow> bool) \<Rightarrow> 'a act \<Rightarrow> 'a act \<Rightarrow> bool" where
  "agree R m m' \<longleftrightarrow> (\<forall>s s'. R s s' \<longrightarrow> fst (m s) = fst (m' s') \<and> R (snd (m s)) (snd (m' s')))"

definition exceptLog :: "state \<Rightarrow> state \<Rightarrow> bool" where
  "exceptLog s s' \<longleftrightarrow> trace s = trace s' \<and> client s = client s' \<and> v_answerText s = v_answerText s'
     \<and> v_answerMarkdown s = v_answerMarkdown s' \<and> v_answerHtml s = v_answerHtml s'
     \<and> runStatus s = runStatus s'"

definition exceptTrace :: "state \<Rightarrow> state \<Rightarrow> bool" where
  "exceptTrace s s' \<longleftrightarrow> logged s = logged s' \<and> client s = client s' \<and> v_answerText s = v_answerText s'
     \<and> v_answerMarkdown s = v_answerMarkdown s' \<and> v_answerHtml s = v_answerHtml s'
     \<and> runStatus s = runStatus s'"

subsection \<open>Sample surroundings\<close>

text \<open>
  A concrete environment in which every collaborator succeeds without writing to the
  log, and a call with the prompt ``Say OK.''. The other environments vary single
  fields of it: the response never completes, no model is configured, the launch
  fails, the removal fails, the browser is kept, no cookie is found, the registration
  of the hooks fails.
\<close>

definition quiet :: "'a \<Rightarrow> 'a reply" where
  "quiet v = \<lparr>says = [], gives = Inr v\<rparr>"

definition failing :: "thrown \<Rightarrow> 'a reply" where
  "failing e = \<lparr>says = [], gives = Inl e\<rparr>"

definition plainConfig :: config where
  "plainConfig = \<lparr>url = lit ''https://chatgpt.com/'', desiredModel = Some (lit ''GPT-5''),
     chromeProfile = None, inputTimeoutMs = 30000, timeoutMs = 900000, headless = False,
     hideWindow = False, keepBrowser = False, cookieSync = True, debug = False\<rparr>"

definition tmpDir :: jsstring where
  "tmpDir = lit ''/tmp/oracle-browser-Ab12Cd''"

definition calm :: env where
  "calm = \<lparr>resolveBrowserConfig = Inr plainConfig, devtoolsTrace = False, configJson = lit ''{}'',
     mkdtemp = Inr tmpDir, launchChrome = quiet \<lparr>pid = 4242, port = 9222\<rparr>,
     registerTerminationHooks = quiet (), now_start = 1000, connectToChrome = quiet (),
     hideChromeWindow = quiet (), enableAll = Inr (), clearBrowserCookies = Inr (),
     syncCookies = quiet 3, navigateToChatGPT = quiet (), ensureNotBlocked = quiet (),
     ensurePromptReady = quiet (), ensureModelSelection = quiet (),
     ensurePromptReady_again = quiet (), submitPrompt = quiet (),
     waitForAssistantResponse = quiet \<lparr>a_text = lit ''OK'', a_html = Some (lit ''<p>OK</p>''), a_meta = lit ''turn-1''\<rparr>,
     captureAssistantMarkdown = quiet (Some (lit ''**OK**'')), now_done = 2500,
     estimateTokenCount = (\<lambda>s. (int (length s) + 3) div 4),
     clientClose = Inr (), chromeKill = Inr (), rm = Inr (), now_cleanup = 2600,
     toFixed1 = (\<lambda>ms. showInt (ms div 1000) @ lit ''.'' @ showInt (ms mod 1000 div 100))\<rparr>"

definition sayOk :: options where
  "sayOk = \<lparr>prompt = Some [0x53, 0x61, 0x79, 0x20, 0x4F, 0x4B, 0x2E], logSupplied = True\<rparr>"

definition okResult :: BrowserRunResult where
  "okResult = \<lparr>answerText = lit ''OK'', answerMarkdown = lit ''**OK**'',
     answerHtml = Some (lit ''<p>OK</p>''), tookMs = 1500, answerTokens = 2, answerChars = 2,
     chromePid = 4242, chromePort = 9222, userDataDir = tmpDir\<rparr>"



definition modelless :: env where
  "modelless = calm\<lparr>resolveBrowserConfig := Inr (plainConfig\<lparr>desiredModel := None\<rparr>)\<rparr>"






definition noCookiesLine :: jsstring where
  "noCookiesLine = lit ''No Chrome cookies found; continuing without session reuse''"

definition cookieless :: env where
  "cookieless = calm\<lparr>syncCookies := \<lparr>says = [], gives = Inr 0\<rparr>\<rparr>"

definition hookError :: thrown where
  "hookError = Error (lit ''process.on failed'') None None"

definition hookless :: env where
  "hookless = calm\<lparr>registerTerminationHooks := failing hookError\<rparr>"

section \<open>The picker of \<^verbatim>\<open>scripts/browser-tools.ts\<close>\<close>

text \<open>
  The \<^verbatim>\<open>pick\<close> command first evaluates a script in the page (lines 182 to 285) that
  installs a function \<^verbatim>\<open>pick\<close> on \<^verbatim>\<open>globalThis\<close>, guarded by the marker
  \<^verbatim>\<open>pickOverlayInjected\<close> kept on \<^verbatim>\<open>globalThis\<close> as well. The page state the script
  touches: the marker (absent, or a boolean), the installed function, named by the number
  of function objects created before it (every evaluation of the arrow expression
  creates a new object), and the listeners on the document, which only a call of the
  installed function adds (lines 278 to 280). The command then calls the installed
  function when there is one (lines 287 to 293).
\<close>

record page =
  pickOverlayInjected :: "bool option"
  pick :: "nat option"
  created :: nat
  listeners :: "(string \<times> nat) list"

definition injectPick :: "page \<Rightarrow> page" where
  "injectPick scope =
     (if pickOverlayInjected scope = Some True then scope
      else scope\<lparr>pickOverlayInjected := Some True,
                 pick := Some (created scope),
                 created := Suc (created scope)\<rparr>)"

definition callPick :: "page \<Rightarrow> page" where
  "callPick scope =
     (case pick scope of
        None \<Rightarrow> scope
      | Some f \<Rightarrow> scope\<lparr>listeners := listeners scope @ [(''mousemove'', f), (''click'', f), (''keydown'', f)]\<rparr>)"

definition blankPage :: page where
  "blankPage = \<lparr>pickOverlayInjected = None, pick = None, created = 0, listeners = []\<rparr>"

section \<open>Properties of the orchestrator\<close>

subsection \<open>Basic facts\<close>

declare digits.simps [simp del]

lemma how_simps [simp]:
  "how (Inl e) = Threw e" "how (Inr v) = Returned"
  "how r = Threw e \<longleftrightarrow> r = Inl e" "how r = Returned \<longleftrightarrow> (\<exists>v. r = Inr v)"
  "Threw e = how r \<longleftrightarrow> r = Inl e" "Returned = how r \<longleftrightarrow> (\<exists>v. r = Inr v)"
  by (cases r; auto simp add: how_def)+

lemma lit_eq_Nil [simp]: "lit s = [] \<longleftrightarrow> s = []" "[] = lit s \<longleftrightarrow> s = []"
  by (auto simp add: lit_def)

lemma length_lit [simp]: "length (lit s) = length s"
  by (simp add: lit_def)

lemmas sched_defs = schedule_def preparing_def priming_def selecting_def answering_def

lemmas act_defs = andThen_def ret_def throw_def logger_def invoke_def await_def issue_def assign_def

lemma upToFailure_append:
  "upToFailure (a @ b) = (if overall a = Returned then a @ upToFailure b else upToFailure a)"
  by (induction a rule: upToFailure.induct) auto

lemma upToFailure_all: "overall a = Returned \<Longrightarrow> upToFailure a = a"
  by (induction a rule: upToFailure.induct) auto

lemma overall_append:
  "overall (a @ b) = (if overall a = Returned then overall b else overall a)"
  by (induction a rule: overall.induct) auto

lemma set_upToFailure: "set (upToFailure xs) \<subseteq> set xs"
  by (induction xs rule: upToFailure.induct) auto

lemma traces_andThen:
  assumes "traces m a" and "\<And>v. traces (f v) b"
  shows "traces (andThen m f) (a @ b)"
  unfolding traces_def
proof (intro allI)
  fix s
  obtain r s' where ms: "m s = (r, s')" by (cases "m s")
  from assms(1) ms have t: "trace s' = trace s @ upToFailure a" and k: "overall a = how r"
    by (auto simp: traces_def dest: spec [of _ s])
  show "trace (snd (andThen m f s)) = trace s @ upToFailure (a @ b) \<and>
        how (fst (andThen m f s)) = overall (a @ b)"
  proof (cases r)
    case (Inl e)
    with ms t k show ?thesis by (simp add: andThen_def upToFailure_append overall_append)
  next
    case (Inr v)
    from assms(2) [of v] have "trace (snd (f v s')) = trace s' @ upToFailure b"
      and "overall b = how (fst (f v s'))"
      by (auto simp: traces_def)
    with Inr ms t k show ?thesis
      by (simp add: andThen_def upToFailure_append overall_append upToFailure_all)
  qed
qed

lemma traces_await: "traces (await ev r) [(ev, how (gives r))]"
  by (cases "gives r") (simp_all add: traces_def await_def)

lemma traces_invoke: "traces (invoke ev r) [(ev, how r)]"
  by (cases r) (simp_all add: traces_def invoke_def)

lemma traces_issue: "traces (issue ev) [(ev, Returned)]"
  by (simp add: traces_def issue_def)

lemma traces_logger: "traces (logger l) []"
  by (simp add: traces_def logger_def)

lemma traces_assign: "(\<And>s. trace (g s) = trace s) \<Longrightarrow> traces (assign g) []"
  by (simp add: traces_def assign_def)

lemma traces_ret: "traces (ret v) []"
  by (simp add: traces_def ret_def)

lemma traces_final: "traces (\<lambda>s. (Inr (g s), s)) []"
  by (simp add: traces_def)

lemma traces_if:
  "traces m a \<Longrightarrow> traces n b \<Longrightarrow> traces (if c then m else n) (if c then a else b)"
  by simp

lemma traces_step:
  "(\<And>v. traces (f v) b) \<Longrightarrow> traces (andThen (await ev r) f) ((ev, how (gives r)) # b)"
  "(\<And>v. traces (f' v) b) \<Longrightarrow> traces (andThen (invoke ev r') f') ((ev, how r') # b)"
  "(\<And>v. traces (g v) b) \<Longrightarrow> traces (andThen (issue ev) g) ((ev, Returned) # b)"
  "(\<And>v. traces (g v) b) \<Longrightarrow> traces (andThen (logger l) g) b"
  "(\<And>v. traces (g v) b) \<Longrightarrow> (\<And>s. trace (h s) = trace s) \<Longrightarrow> traces (andThen (assign h) g) b"
  using traces_andThen [OF traces_await, of f b ev r]
        traces_andThen [OF traces_invoke, of f' b ev r']
        traces_andThen [OF traces_issue, of g b ev]
        traces_andThen [OF traces_logger, of g b l]
        traces_andThen [OF traces_assign, of h g b]
  by simp_all

lemma session_traces: "traces (session E config chrome dir promptText startedAt) (schedule E config promptText)"
proof -
  let ?raw = "(if \<not> headless config \<and> hideWindow config
      then [(HideChromeWindow, how (gives (hideChromeWindow E)))] else [])
     @ (NetworkEnable, Returned) # (PageEnable, Returned) # (RuntimeEnable, Returned)
     # (AwaitAll, how (enableAll E))
     # (ClearBrowserCookies, how (clearBrowserCookies E))
     # (if cookieSync config
        then [(SyncCookies (url config) (chromeProfile config), how (gives (syncCookies E)))] else [])
     @ (NavigateToChatGPT (url config), how (gives (navigateToChatGPT E)))
     # (EnsureNotBlocked (headless config), how (gives (ensureNotBlocked E)))
     # (EnsurePromptReady (inputTimeoutMs config), how (gives (ensurePromptReady E)))
     # (if truthy (desiredModel config)
        then [(EnsureModelSelection (the (desiredModel config)), how (gives (ensureModelSelection E))),
              (EnsurePromptReady (inputTimeoutMs config), how (gives (ensurePromptReady_again E)))]
        else [])
     @ [(SubmitPrompt promptText, how (gives (submitPrompt E))),
        (WaitForAssistantResponse (timeoutMs config), how (gives (waitForAssistantResponse E))),
        (CaptureAssistantMarkdown, how (gives (captureAssistantMarkdown E)))]"
  have "traces (session E config chrome dir promptText startedAt) ?raw"
    unfolding session_def
    apply (rule traces_andThen)
     apply (rule traces_if [OF traces_await traces_ret])
    apply (intro traces_step)
        apply (rule traces_andThen)
         apply (rule traces_if)
          apply (rule traces_step)
          apply (rule traces_logger)
         apply (rule traces_logger)
        apply (intro traces_step)
        apply (rule traces_andThen)
         apply (rule traces_if)
          apply (rule traces_step)
          apply (rule traces_await)
         apply (rule traces_ret)
        apply (intro traces_step traces_final)
         apply simp_all
    done
  moreover have "?raw = schedule E config promptText"
    by (simp add: sched_defs)
  ultimately show ?thesis by simp
qed

lemma tryBlock_traces:
  "traces (tryBlock E config chrome dir promptText startedAt) (attempt E config chrome promptText)"
  unfolding tryBlock_def attempt_def
  by (intro traces_step session_traces) simp

lemma keeps_andThen:
  assumes "keeps P m" and "\<And>v. keeps P (f v)"
  shows "keeps P (andThen m f)"
  unfolding keeps_def
proof (intro allI impI)
  fix s assume P: "P s"
  obtain r s' where ms: "m s = (r, s')" by (cases "m s")
  with assms(1) P have "P s'" by (auto simp: keeps_def)
  with assms(2) ms show "P (snd (andThen m f s))"
    by (cases r) (auto simp: andThen_def keeps_def)
qed

lemma keeps_if: "keeps P m \<Longrightarrow> keeps P n \<Longrightarrow> keeps P (if c then m else n)"
  by simp

lemma keeps_client:
  "keeps client (await ev r)" "keeps client (invoke ev r')" "keeps client (issue ev)"
  "keeps client (logger l)" "keeps client (ret v)"
  by (simp_all add: keeps_def act_defs)

lemma session_keeps_client: "keeps client (session E config chrome dir promptText startedAt)"
  unfolding session_def
  by (intro keeps_andThen keeps_if keeps_client) (simp_all add: keeps_def assign_def)

lemma tryBlock_client:
  "client (snd (tryBlock E config chrome dir promptText startedAt s))
     = (client s \<or> how (gives (connectToChrome E)) = Returned)"
proof (cases "gives (connectToChrome E)")
  case (Inl e)
  then show ?thesis by (simp add: tryBlock_def andThen_def await_def)
next
  case (Inr v)
  have "client (snd (session E config chrome dir promptText startedAt s'))" if "client s'" for s'
    using session_keeps_client that by (auto simp: keeps_def)
  with Inr show ?thesis by (simp add: tryBlock_def andThen_def await_def assign_def)
qed

lemma finallyBlock_trace:
  "trace (finallyBlock E config chrome dir startedAt hooks s) = trace s @ cleanup E config dir (client s) hooks"
  by (simp add: finallyBlock_def cleanup_def Let_def act_defs)

lemma catchBlock_frame:
  "trace (catchBlock E config error s) = trace s" "client (catchBlock E config error s) = client s"
  by (simp_all add: catchBlock_def Let_def logger_def split: thrown.splits option.splits)

lemma guarded_outcome:
  "fst (guarded E config chrome dir promptText hooks s)
     = fst (tryBlock E config chrome dir promptText (now_start E) s)"
  by (simp add: guarded_def Let_def split: prod.splits)

lemma guarded_trace:
  "trace (snd (guarded E config chrome dir promptText hooks s))
     = trace s @ upToFailure (attempt E config chrome promptText)
       @ cleanup E config dir (client s \<or> how (gives (connectToChrome E)) = Returned) hooks"
proof -
  obtain r s1 where t: "tryBlock E config chrome dir promptText (now_start E) s = (r, s1)"
    by (cases "tryBlock E config chrome dir promptText (now_start E) s")
  from tryBlock_traces [of E config chrome dir promptText "now_start E"] t
  have tr: "trace s1 = trace s @ upToFailure (attempt E config chrome promptText)"
    by (auto simp: traces_def dest: spec [of _ s])
  from tryBlock_client [of E config chrome dir promptText "now_start E" s] t
  have cl: "client s1 = (client s \<or> how (gives (connectToChrome E)) = Returned)" by simp
  show ?thesis
    using t tr cl
    by (cases r) (simp_all add: guarded_def Let_def finallyBlock_trace catchBlock_frame)
qed

lemma steps_invalid:
  "\<not> (\<exists>p. validPrompt opts p) \<Longrightarrow> steps E opts s = (Inl promptRequired, s)"
  by (cases "prompt opts") (auto simp: steps_def validPrompt_def andThen_def throw_def ret_def)

lemma steps_unresolved:
  "validPrompt opts p \<Longrightarrow> resolveBrowserConfig E = Inl e \<Longrightarrow> steps E opts s = (Inl e, s)"
  by (auto simp: steps_def validPrompt_def andThen_def throw_def ret_def)

lemma steps_no_dir:
  assumes "validPrompt opts p" "resolveBrowserConfig E = Inr config" "mkdtemp E = Inl e"
  shows "fst (steps E opts s) = Inl e" "trace (snd (steps E opts s)) = trace s @ [(Mkdtemp, Threw e)]"
  using assms by (auto simp: steps_def validPrompt_def act_defs)

lemma steps_no_launch:
  assumes "validPrompt opts p" "resolveBrowserConfig E = Inr config" "mkdtemp E = Inr d"
    "gives (launchChrome E) = Inl e"
  shows "fst (steps E opts s) = Inl e"
    "trace (snd (steps E opts s)) = trace s @ [(Mkdtemp, Returned), (LaunchChrome d, Threw e)]"
  using assms by (auto simp: steps_def validPrompt_def act_defs)

lemma steps_launched:
  assumes "validPrompt opts p" "resolveBrowserConfig E = Inr config" "mkdtemp E = Inr d"
    "gives (launchChrome E) = Inr chrome"
  shows "steps E opts s = guarded E config chrome d p (how (gives (registerTerminationHooks E)) = Returned)
                            (entered E config d s)"
  using assms
  by (cases "gives (registerTerminationHooks E)")
     (auto simp: steps_def validPrompt_def act_defs registerHooks_def entered_def)

lemma phase_schedule: "x \<in> set (schedule E config p) \<Longrightarrow> phase (fst x) = 1"
  by (auto simp: sched_defs split: if_splits)

lemma phase_attempt:
  "x \<in> set (upToFailure (attempt E config chrome p)) \<Longrightarrow> phase (fst x) = 1"
  using set_upToFailure [of "attempt E config chrome p"] phase_schedule [of x E config p]
  by (auto simp: attempt_def)

lemma phase_cleanup: "x \<in> set (cleanup E config d c h) \<Longrightarrow> phase (fst x) = 2"
  by (auto simp: cleanup_def split: if_splits)

lemma run_fst: "fst (runBrowserMode E opts) = fst (steps E opts init)"
  by (simp add: runBrowserMode_def split: prod.splits)

lemma run_trace_steps: "trace (snd (runBrowserMode E opts)) = trace (snd (steps E opts init))"
  by (simp add: runBrowserMode_def split: prod.splits)

lemma run_logged:
  "logged (snd (runBrowserMode E opts)) = (if logSupplied opts then logged (snd (steps E opts init)) else [])"
  by (simp add: runBrowserMode_def split: prod.splits)

lemma init_simps [simp]: "trace init = []" "logged init = []" "client init = False"
  by (simp_all add: init_def)

lemma entered_simps:
  "trace (entered E config d s) = trace s @ [(Mkdtemp, Returned), (LaunchChrome d, Returned),
      (RegisterTerminationHooks d (keepBrowser config), how (gives (registerTerminationHooks E)))]"
  "client (entered E config d s) = client s"
  by (simp_all add: entered_def)

lemma run_invalid:
  "\<not> (\<exists>p. validPrompt opts p) \<Longrightarrow> runBrowserMode E opts = (Inl promptRequired, init)"
  by (simp add: runBrowserMode_def steps_invalid init_def)

lemma run_trace:
  assumes "validPrompt opts p" "resolveBrowserConfig E = Inr config" "mkdtemp E = Inr d"
    "gives (launchChrome E) = Inr chrome"
  shows "trace (snd (runBrowserMode E opts)) =
     [(Mkdtemp, Returned), (LaunchChrome d, Returned),
      (RegisterTerminationHooks d (keepBrowser config), how (gives (registerTerminationHooks E)))]
     @ upToFailure (attempt E config chrome p)
     @ cleanup E config d (how (gives (connectToChrome E)) = Returned)
         (how (gives (registerTerminationHooks E)) = Returned)"
  by (simp add: run_trace_steps steps_launched [OF assms] guarded_trace entered_simps)

lemma run_outcome:
  assumes "validPrompt opts p" "resolveBrowserConfig E = Inr config" "mkdtemp E = Inr d"
    "gives (launchChrome E) = Inr chrome"
  shows "how (outcome (runBrowserMode E opts)) = overall (attempt E config chrome p)"
  using tryBlock_traces [of E config chrome d p "now_start E"]
  by (simp add: outcome_def run_fst steps_launched [OF assms] guarded_outcome traces_def)


lemma trim_blank:
  assumes "list_all isWhiteSpace p"
  shows "trim p = []"
proof -
  from assms have d: "dropWhile isWhiteSpace p = []"
    by (induction p) auto
  show ?thesis unfolding trim_def d by simp
qed

lemma calls_cleanup:
  "map fst (cleanup E config d c h) =
     (if c then [ClientClose] else []) @ (if h then [RemoveTerminationHooks] else [])
     @ (if keepBrowser config then [] else [ChromeKill, Rm d])"
  by (simp add: cleanup_def)

lemma sayOk_valid: "validPrompt sayOk [0x53, 0x61, 0x79, 0x20, 0x4F, 0x4B, 0x2E]"
  by (simp add: validPrompt_def sayOk_def trim_def isWhiteSpace_def)


subsection \<open>Validation of the prompt\<close>

text \<open>
  Claim C10. When the prompt is absent, empty or made of white space only,
  \<^verbatim>\<open>runBrowserMode\<close> throws ``Prompt text is required when using browser mode.'' before
  it allocates anything: it has issued no call at all (no \<^verbatim>\<open>mkdtemp\<close>, no launch, no
  connection) and has written nothing to the log.
\<close>

theorem blank_prompt_throws_before_any_resource:
  assumes "prompt opts = None \<or> (\<exists>p. prompt opts = Some p \<and> list_all isWhiteSpace p)"
  shows "outcome (runBrowserMode E opts) = Inl promptRequired
         \<and> calls (runBrowserMode E opts) = []
         \<and> sink (runBrowserMode E opts) = []"
proof -
  from assms have "\<not> (\<exists>p. validPrompt opts p)"
    by (auto simp: validPrompt_def trim_blank)
  then show ?thesis
    by (simp add: run_invalid outcome_def calls_def sink_def)
qed

theorem blank_prompt_witness:
  "list_all isWhiteSpace [0x0020, 0x0009, 0x3000, 0x000A]
   \<and> outcome (runBrowserMode calm \<lparr>prompt = Some [0x0020, 0x0009, 0x3000, 0x000A], logSupplied = True\<rparr>)
       = Inl promptRequired
   \<and> calls (runBrowserMode calm \<lparr>prompt = Some [0x0020, 0x0009, 0x3000, 0x000A], logSupplied = True\<rparr>) = []
   \<and> sink (runBrowserMode calm \<lparr>prompt = Some [0x0020, 0x0009, 0x3000, 0x000A], logSupplied = True\<rparr>) = []"
proof -
  have h: "list_all isWhiteSpace [0x0020, 0x0009, 0x3000, 0x000A]"
    by (simp add: isWhiteSpace_def)
  show ?thesis
    using h blank_prompt_throws_before_any_resource
      [of "\<lparr>prompt = Some [0x0020, 0x0009, 0x3000, 0x000A], logSupplied = True\<rparr>" calm]
    by simp
qed

subsection \<open>Cleanup\<close>


lemma calm_trace:
  "trace (snd (runBrowserMode calm sayOk)) =
     [(Mkdtemp, Returned), (LaunchChrome tmpDir, Returned), (RegisterTerminationHooks tmpDir False, Returned),
      (ConnectToChrome 9222, Returned), (NetworkEnable, Returned), (PageEnable, Returned), (RuntimeEnable, Returned),
      (AwaitAll, Returned), (ClearBrowserCookies, Returned),
      (SyncCookies (lit ''https://chatgpt.com/'') None, Returned),
      (NavigateToChatGPT (lit ''https://chatgpt.com/''), Returned), (EnsureNotBlocked False, Returned),
      (EnsurePromptReady 30000, Returned), (EnsureModelSelection (lit ''GPT-5''), Returned),
      (EnsurePromptReady 30000, Returned), (SubmitPrompt [0x53, 0x61, 0x79, 0x20, 0x4F, 0x4B, 0x2E], Returned),
      (WaitForAssistantResponse 900000, Returned), (CaptureAssistantMarkdown, Returned),
      (ClientClose, Returned), (RemoveTerminationHooks, Returned), (ChromeKill, Returned), (Rm tmpDir, Returned)]"
  (is "_ = ?rhs")
proof -
  have "trace (snd (runBrowserMode calm sayOk)) =
     [(Mkdtemp, Returned), (LaunchChrome tmpDir, Returned),
      (RegisterTerminationHooks tmpDir (keepBrowser plainConfig), how (gives (registerTerminationHooks calm)))]
     @ upToFailure (attempt calm plainConfig \<lparr>pid = 4242, port = 9222\<rparr> [0x53, 0x61, 0x79, 0x20, 0x4F, 0x4B, 0x2E])
     @ cleanup calm plainConfig tmpDir (how (gives (connectToChrome calm)) = Returned)
         (how (gives (registerTerminationHooks calm)) = Returned)"
    by (rule run_trace [OF sayOk_valid]) (simp_all add: calm_def quiet_def)
  also have "\<dots> = ?rhs" by (simp add: attempt_def sched_defs cleanup_def calm_def quiet_def plainConfig_def truthy_def)
  finally show ?thesis .
qed




lemma results_step:
  "gives r = Inr v \<Longrightarrow> results (f v) R \<Longrightarrow> results (andThen (await ev r) f) R"
  "r' = Inr v' \<Longrightarrow> results (f' v') R' \<Longrightarrow> results (andThen (invoke ev r') f') R'"
  "results (g ()) R'' \<Longrightarrow> results (andThen (issue ev) g) R''"
  "results (g ()) R'' \<Longrightarrow> results (andThen (logger l) g) R''"
  by (simp_all add: results_def act_defs)

lemma results_fail:
  "gives r = Inl e \<Longrightarrow> results (andThen (await ev r) f) (Inl e)"
  by (simp add: results_def act_defs)

lemma results_if_await:
  "(c \<Longrightarrow> gives r = Inr v) \<Longrightarrow> results (f v) R
     \<Longrightarrow> results (andThen (if c then await ev r else ret v) f) R"
  by (simp add: results_def act_defs)

lemma results_if_await_logger:
  "(c \<Longrightarrow> gives r = Inr n) \<Longrightarrow> results (f ()) R
     \<Longrightarrow> results (andThen (if c then andThen (await ev r) (\<lambda>n. logger (l n)) else logger l') f) R"
  by (simp add: results_def act_defs)

lemma results_if_await_await:
  "(c \<Longrightarrow> gives r = Inr u) \<Longrightarrow> (c \<Longrightarrow> gives r' = Inr v) \<Longrightarrow> results (f v) R
     \<Longrightarrow> results (andThen (if c then andThen (await ev r) (\<lambda>_. await ev' r') else ret v) f) R"
  by (simp add: results_def act_defs)

lemma overall_Returned_iff:
  "overall xs = Returned \<longleftrightarrow> (\<forall>x \<in> set xs. snd x = Returned)"
  by (induction xs rule: overall.induct) auto

lemma session_result:
  assumes "fst (session E config chrome dir p st s) = Inr res"
  shows "\<exists>ans copied. gives (waitForAssistantResponse E) = Inr ans
           \<and> gives (captureAssistantMarkdown E) = Inr copied
           \<and> answerText res = a_text ans
           \<and> answerMarkdown res = (case copied of None \<Rightarrow> a_text ans | Some m \<Rightarrow> m)
           \<and> answerHtml res = (case a_html ans of None \<Rightarrow> None | Some h \<Rightarrow> if h = [] then None else Some h)
           \<and> tookMs res = now_done E - st
           \<and> answerTokens res = estimateTokenCount E (answerMarkdown res)
           \<and> answerChars res = length (a_text ans)
           \<and> chromePid res = pid chrome \<and> chromePort res = port chrome \<and> userDataDir res = dir"
proof -
  from session_traces [of E config chrome dir p st] assms
  have "overall (schedule E config p) = Returned"
    by (auto simp: traces_def dest: spec [of _ s])
  then have all: "\<forall>x \<in> set (schedule E config p). snd x = Returned"
    by (simp add: overall_Returned_iff)
  then obtain ans copied where ok:
    "enableAll E = Inr ()" "clearBrowserCookies E = Inr ()"
    "gives (navigateToChatGPT E) = Inr ()" "gives (ensureNotBlocked E) = Inr ()"
    "gives (ensurePromptReady E) = Inr ()" "gives (submitPrompt E) = Inr ()"
    "gives (waitForAssistantResponse E) = Inr ans" "gives (captureAssistantMarkdown E) = Inr copied"
    by (auto simp: sched_defs)
  from all have hide: "\<not> headless config \<and> hideWindow config \<Longrightarrow> gives (hideChromeWindow E) = Inr ()"
    and model: "truthy (desiredModel config) \<Longrightarrow> gives (ensureModelSelection E) = Inr ()"
      "truthy (desiredModel config) \<Longrightarrow> gives (ensurePromptReady_again E) = Inr ()"
    by (auto simp: sched_defs)
  from all obtain n where sync: "cookieSync config \<Longrightarrow> gives (syncCookies E) = Inr n"
    by (cases "cookieSync config") (auto simp: sched_defs)
  let ?R = "\<lparr>answerText = a_text ans,
                   answerMarkdown = (case copied of None \<Rightarrow> a_text ans | Some m \<Rightarrow> m),
                   answerHtml = (case a_html ans of None \<Rightarrow> None | Some h \<Rightarrow> if h = [] then None else Some h),
                   tookMs = now_done E - st,
                   answerTokens = estimateTokenCount E (case copied of None \<Rightarrow> a_text ans | Some m \<Rightarrow> m),
                   answerChars = length (a_text ans),
                   chromePid = pid chrome, chromePort = port chrome, userDataDir = dir\<rparr>"
  have "results (session E config chrome dir p st) (Inr ?R)"
    unfolding session_def
    apply (rule results_if_await [OF hide], assumption)
    apply (rule results_step(3))+
    apply (rule results_step(2) [OF ok(1)])
    apply (rule results_step(2) [OF ok(2)])
    apply (rule results_if_await_logger [OF sync], assumption)
    apply (rule results_step(1) [OF ok(3)])
    apply (rule results_step(1) [OF ok(4)])
    apply (rule results_step(1) [OF ok(5)])
    apply (rule results_if_await_await [OF model], assumption, assumption)
    apply (rule results_step(1) [OF ok(6)])
    apply (rule results_step(1) [OF ok(7)])
    apply (cases "a_html ans"; cases copied; simp add: results_def act_defs ok)
    done
  with assms have "res = ?R" by (simp add: results_def)
  with ok show ?thesis
    by (intro exI [of _ ans] exI [of _ copied]) simp
qed


subsection \<open>The result of a successful run\<close>

lemma tryBlock_result:
  assumes "fst (tryBlock E config chrome dir p st s) = Inr res"
  shows "\<exists>s'. fst (session E config chrome dir p st s') = Inr res"
  using assms
  by (cases "gives (connectToChrome E)") (auto simp: tryBlock_def act_defs)

lemma run_success:
  assumes "outcome (runBrowserMode E opts) = Inr res"
  shows "\<exists>p config d chrome s. validPrompt opts p \<and> resolveBrowserConfig E = Inr config
           \<and> mkdtemp E = Inr d \<and> gives (launchChrome E) = Inr chrome
           \<and> fst (session E config chrome d p (now_start E) s) = Inr res"
proof (cases "\<exists>p. validPrompt opts p")
  case False
  with assms show ?thesis by (simp add: outcome_def run_fst steps_invalid)
next
  case True
  then obtain p where p: "validPrompt opts p" ..
  show ?thesis
  proof (cases "resolveBrowserConfig E")
    case (Inl e)
    with assms p show ?thesis by (simp add: outcome_def run_fst steps_unresolved)
  next
    case cfg: (Inr config)
    show ?thesis
    proof (cases "mkdtemp E")
      case (Inl e)
      with assms p cfg show ?thesis by (simp add: outcome_def run_fst steps_no_dir)
    next
      case dir: (Inr d)
      show ?thesis
      proof (cases "gives (launchChrome E)")
        case (Inl e)
        with assms p cfg dir show ?thesis by (simp add: outcome_def run_fst steps_no_launch)
      next
        case (Inr chrome)
        from assms have "fst (tryBlock E config chrome d p (now_start E) (entered E config d init)) = Inr res"
          by (simp add: outcome_def run_fst steps_launched [OF p cfg dir Inr] guarded_outcome)
        from tryBlock_result [OF this] p cfg dir Inr show ?thesis by blast
      qed
    qed
  qed
qed


lemma calm_outcome: "outcome (runBrowserMode calm sayOk) = Inr okResult"
proof -
  have "how (outcome (runBrowserMode calm sayOk))
          = overall (attempt calm plainConfig \<lparr>pid = 4242, port = 9222\<rparr> [0x53, 0x61, 0x79, 0x20, 0x4F, 0x4B, 0x2E])"
    by (rule run_outcome [OF sayOk_valid, of _ _ tmpDir]) (simp_all add: calm_def quiet_def)
  also have "\<dots> = Returned"
    by (simp add: attempt_def sched_defs calm_def quiet_def plainConfig_def truthy_def)
  finally obtain res where res: "outcome (runBrowserMode calm sayOk) = Inr res" by auto
  from run_success [OF res] obtain p config d chrome s
    where c: "resolveBrowserConfig calm = Inr config" "mkdtemp calm = Inr d" "gives (launchChrome calm) = Inr chrome"
      and "fst (session calm config chrome d p (now_start calm) s) = Inr res" by blast
  from session_result [OF this(4)] c have "res = okResult"
    by (cases res) (auto simp: calm_def quiet_def okResult_def plainConfig_def)
  with res show ?thesis by simp
qed



lemma in_attempt:
  assumes "validPrompt opts p" "resolveBrowserConfig E = Inr config" "mkdtemp E = Inr d"
    "gives (launchChrome E) = Inr chrome"
    and "x \<in> set (trace (snd (runBrowserMode E opts)))" and "phase (fst x) = 1"
  shows "x \<in> set (upToFailure (attempt E config chrome p))"
  using assms(5,6) phase_cleanup [of x E config d]
  unfolding run_trace [OF assms(1-4)] by auto

lemma run_started:
  assumes "x \<in> set (trace (snd (runBrowserMode E opts)))" and "phase (fst x) = 1"
  shows "\<exists>p config d chrome. validPrompt opts p \<and> resolveBrowserConfig E = Inr config
           \<and> mkdtemp E = Inr d \<and> gives (launchChrome E) = Inr chrome"
proof (cases "\<exists>p. validPrompt opts p")
  case False
  with assms show ?thesis by (simp add: run_trace_steps steps_invalid)
next
  case True
  then obtain p where p: "validPrompt opts p" ..
  show ?thesis
  proof (cases "resolveBrowserConfig E")
    case (Inl e)
    with assms p show ?thesis by (simp add: run_trace_steps steps_unresolved)
  next
    case cfg: (Inr config)
    show ?thesis
    proof (cases "mkdtemp E")
      case (Inl e)
      with assms p cfg show ?thesis by (auto simp: run_trace_steps steps_no_dir)
    next
      case dir: (Inr d')
      show ?thesis
      proof (cases "gives (launchChrome E)")
        case (Inl e)
        with assms p cfg dir show ?thesis by (auto simp: run_trace_steps steps_no_launch)
      next
        case (Inr chrome)
        with p cfg dir show ?thesis by blast
      qed
    qed
  qed
qed











lemma finallyBlock_logged: "set (logged s) \<subseteq> set (logged (finallyBlock E config chrome dir st hooks s))"
  by (auto simp: finallyBlock_def Let_def act_defs)




subsection \<open>A timeout while awaiting the response\<close>




subsection \<open>Order of the calls\<close>

lemma overall_Threw_subset: "overall A \<noteq> Returned \<Longrightarrow> set (upToFailure (A @ B)) \<subseteq> set A"
  using set_upToFailure [of A] by (simp add: upToFailure_append)

lemma upToFailure_split:
  assumes "(ev, w) \<in> set (upToFailure (A @ x # B))" and "\<forall>y \<in> set A. fst y \<noteq> ev"
  shows "overall A = Returned"
    and "upToFailure (A @ x # B) = A @ upToFailure (x # B)"
proof -
  show "overall A = Returned"
  proof (rule ccontr)
    assume "overall A \<noteq> Returned"
    from overall_Threw_subset [OF this, of "x # B"] assms show False by force
  qed
  then show "upToFailure (A @ x # B) = A @ upToFailure (x # B)"
    by (simp add: upToFailure_append)
qed

lemma upToFailure_Cons: "\<exists>rest. upToFailure (x # B) = x # rest \<and> set rest \<subseteq> set B"
  using set_upToFailure [of B] by (cases x; cases "snd x") auto

lemma notin_subset: "set rest \<subseteq> set B \<Longrightarrow> \<forall>y \<in> set B. fst y \<noteq> ev \<Longrightarrow> (ev, w) \<notin> set rest"
  by force

lemma overall_ReturnedD: "overall A = Returned \<Longrightarrow> x \<in> set A \<Longrightarrow> snd x = Returned"
  by (simp add: overall_Returned_iff)


lemma run_shape:
  assumes "x \<in> set (trace (snd (runBrowserMode E opts)))" and "phase (fst x) = 1"
    and "resolveBrowserConfig E = Inr config"
  shows "\<exists>p d chrome. x \<in> set (upToFailure (attempt E config chrome p))
           \<and> trace (snd (runBrowserMode E opts)) =
               [(Mkdtemp, Returned), (LaunchChrome d, Returned),
                (RegisterTerminationHooks d (keepBrowser config), how (gives (registerTerminationHooks E)))]
               @ upToFailure (attempt E config chrome p)
               @ cleanup E config d (how (gives (connectToChrome E)) = Returned)
                   (how (gives (registerTerminationHooks E)) = Returned)"
proof -
  from run_started [OF assms(1,2)] assms(3)
  obtain p d chrome where st: "validPrompt opts p" "resolveBrowserConfig E = Inr config"
    "mkdtemp E = Inr d" "gives (launchChrome E) = Inr chrome"
    by auto
  from in_attempt [OF st assms(1,2)] run_trace [OF st] show ?thesis by blast
qed

text \<open>
  Claim C3. Whenever a run navigates, its calls up to the navigation end with: the three
  domain-enable operations issued one after the other with nothing in between, their
  join, which returned, the clearing of the cookies, and, when cookie sync is
  enabled, the cookie sync, which returned. No navigation occurs before or after that
  one.
\<close>

theorem enables_and_cookies_precede_navigation:
  assumes "resolveBrowserConfig E = Inr config"
    and "(NavigateToChatGPT u, w) \<in> set (trace (snd (runBrowserMode E opts)))"
  shows "\<exists>pre post. trace (snd (runBrowserMode E opts)) =
            pre
            @ [(NetworkEnable, Returned), (PageEnable, Returned), (RuntimeEnable, Returned),
               (AwaitAll, Returned), (ClearBrowserCookies, Returned)]
            @ (if cookieSync config
               then [(SyncCookies (url config) (chromeProfile config), Returned)] else [])
            @ [(NavigateToChatGPT u, w)] @ post
          \<and> (\<forall>v z. (NavigateToChatGPT v, z) \<notin> set pre)
          \<and> (\<forall>v z. (NavigateToChatGPT v, z) \<notin> set post)"
proof -
  from run_shape [OF assms(2) _ assms(1)] obtain p d chrome
    where inn: "(NavigateToChatGPT u, w) \<in> set (upToFailure (attempt E config chrome p))"
      and tr: "trace (snd (runBrowserMode E opts)) =
               [(Mkdtemp, Returned), (LaunchChrome d, Returned),
                (RegisterTerminationHooks d (keepBrowser config), how (gives (registerTerminationHooks E)))]
               @ upToFailure (attempt E config chrome p)
               @ cleanup E config d (how (gives (connectToChrome E)) = Returned)
                   (how (gives (registerTerminationHooks E)) = Returned)"
    by auto
  let ?A = "(ConnectToChrome (port chrome), how (gives (connectToChrome E))) # preparing E config @ priming E config"
  let ?nav = "(NavigateToChatGPT (url config), how (gives (navigateToChatGPT E)))"
  let ?B = "(EnsureNotBlocked (headless config), how (gives (ensureNotBlocked E)))
     # (EnsurePromptReady (inputTimeoutMs config), how (gives (ensurePromptReady E)))
     # selecting E config @ answering E config p"
  have att: "attempt E config chrome p = ?A @ ?nav # ?B"
    by (simp add: attempt_def schedule_def)
  have noA: "\<forall>y \<in> set ?A. fst y \<noteq> NavigateToChatGPT u"
    by (auto simp: preparing_def priming_def)
  from upToFailure_split [OF inn [unfolded att] noA]
  have okA: "overall ?A = Returned" and up: "upToFailure (?A @ ?nav # ?B) = ?A @ upToFailure (?nav # ?B)"
    by blast+
  from inn [unfolded att up] noA have inB: "(NavigateToChatGPT u, w) \<in> set (upToFailure (?nav # ?B))"
    by force
  have noB: "\<forall>y \<in> set ?B. fst y \<noteq> NavigateToChatGPT u"
    by (auto simp: selecting_def answering_def)
  from upToFailure_Cons [of ?nav ?B] obtain rest
    where rest0: "upToFailure (?nav # ?B) = ?nav # rest" and sub: "set rest \<subseteq> set ?B"
    by blast
  from inB notin_subset [OF sub noB]
  have nav: "?nav = (NavigateToChatGPT u, w)"
    unfolding rest0 by auto
  from rest0 sub have rest: "upToFailure (?nav # ?B) = (NavigateToChatGPT u, w) # rest" "set rest \<subseteq> set ?B"
    unfolding nav by blast+
  from okA have en: "how (enableAll E) = Returned" "how (clearBrowserCookies E) = Returned"
    and hd: "how (gives (connectToChrome E)) = Returned"
    and sy: "cookieSync config \<Longrightarrow> how (gives (syncCookies E)) = Returned"
    and hi: "\<not> headless config \<and> hideWindow config \<Longrightarrow> how (gives (hideChromeWindow E)) = Returned"
    by (auto simp: overall_Returned_iff preparing_def priming_def simp del: how_simps)
  let ?pre = "[(Mkdtemp, Returned), (LaunchChrome d, Returned),
                (RegisterTerminationHooks d (keepBrowser config), how (gives (registerTerminationHooks E))),
                (ConnectToChrome (port chrome), Returned)]
              @ (if \<not> headless config \<and> hideWindow config then [(HideChromeWindow, Returned)] else [])"
  let ?post = "rest @ cleanup E config d (how (gives (connectToChrome E)) = Returned)
                   (how (gives (registerTerminationHooks E)) = Returned)"
  have "trace (snd (runBrowserMode E opts)) =
            ?pre
            @ [(NetworkEnable, Returned), (PageEnable, Returned), (RuntimeEnable, Returned),
               (AwaitAll, Returned), (ClearBrowserCookies, Returned)]
            @ (if cookieSync config
               then [(SyncCookies (url config) (chromeProfile config), Returned)] else [])
            @ [(NavigateToChatGPT u, w)] @ ?post"
    unfolding tr att up rest(1)
    using en hd sy hi by (simp add: preparing_def priming_def del: how_simps)
  moreover have "\<forall>v z. (NavigateToChatGPT v, z) \<notin> set ?pre" by simp
  moreover have "\<forall>v z. (NavigateToChatGPT v, z) \<notin> set ?post"
    using rest(2) by (auto simp: selecting_def answering_def cleanup_def split: if_splits)
  ultimately show ?thesis by blast
qed


theorem navigation_order_witness:
  "resolveBrowserConfig calm = Inr plainConfig
   \<and> (NavigateToChatGPT (lit ''https://chatgpt.com/''), Returned) \<in> set (trace (snd (runBrowserMode calm sayOk)))
   \<and> (\<exists>pre post. trace (snd (runBrowserMode calm sayOk)) =
            pre
            @ [(NetworkEnable, Returned), (PageEnable, Returned), (RuntimeEnable, Returned),
               (AwaitAll, Returned), (ClearBrowserCookies, Returned)]
            @ [(SyncCookies (lit ''https://chatgpt.com/'') None, Returned)]
            @ [(NavigateToChatGPT (lit ''https://chatgpt.com/''), Returned)] @ post
          \<and> (\<forall>v z. (NavigateToChatGPT v, z) \<notin> set pre)
          \<and> (\<forall>v z. (NavigateToChatGPT v, z) \<notin> set post))"
proof -
  have h1: "resolveBrowserConfig calm = Inr plainConfig"
    by (simp add: calm_def)
  have h2: "(NavigateToChatGPT (lit ''https://chatgpt.com/''), Returned)
              \<in> set (trace (snd (runBrowserMode calm sayOk)))"
    by (simp add: calm_trace)
  from enables_and_cookies_precede_navigation [OF h1 h2] h1 h2 show ?thesis
    by (simp add: plainConfig_def)
qed

lemma upToFailure_reach:
  assumes "(ev, w) \<in> set (upToFailure (A @ y # B))"
    and "\<forall>z \<in> set A. fst z \<noteq> ev" and "\<forall>z \<in> set B. fst z \<noteq> ev"
  shows "overall A = Returned \<and> y = (ev, w)
         \<and> (\<exists>rest. upToFailure (A @ y # B) = A @ (ev, w) # rest \<and> set rest \<subseteq> set B)"
proof -
  from upToFailure_split [OF assms(1,2)]
  have okA: "overall A = Returned" and up: "upToFailure (A @ y # B) = A @ upToFailure (y # B)"
    by blast+
  from assms(1) [unfolded up] assms(2) have inB: "(ev, w) \<in> set (upToFailure (y # B))"
    by force
  from upToFailure_Cons [of y B] obtain rest
    where rest: "upToFailure (y # B) = y # rest" and sub: "set rest \<subseteq> set B"
    by blast
  from inB notin_subset [OF sub assms(3)] have "y = (ev, w)"
    unfolding rest by auto
  with okA up rest sub show ?thesis by auto
qed

text \<open>
  Claim C4. The source tests the configured name for truthiness, so a model counts as
  configured when \<^verbatim>\<open>desiredModel\<close> is a non-empty string. When none is configured, no run
  contains a model-selection call. When one is configured, every run in which the
  prompt input became ready attempts the selection of that model, and every run that
  submits the prompt has the selection and the renewed readiness check, both returned,
  right before the submission.
\<close>

theorem model_selection_iff_configured:
  assumes "resolveBrowserConfig E = Inr config"
  shows "((desiredModel config = None \<or> desiredModel config = Some [])
            \<longrightarrow> (\<forall>m w. (EnsureModelSelection m, w) \<notin> set (trace (snd (runBrowserMode E opts)))))
       \<and> (\<forall>m. desiredModel config = Some m \<and> m \<noteq> [] \<longrightarrow>
            (\<forall>i. (EnsurePromptReady i, Returned) \<in> set (trace (snd (runBrowserMode E opts)))
                 \<longrightarrow> (\<exists>w. (EnsureModelSelection m, w) \<in> set (trace (snd (runBrowserMode E opts)))))
          \<and> (\<forall>t w. (SubmitPrompt t, w) \<in> set (trace (snd (runBrowserMode E opts)))
                 \<longrightarrow> (\<exists>pre post. trace (snd (runBrowserMode E opts)) =
                        pre @ [(EnsureModelSelection m, Returned),
                               (EnsurePromptReady (inputTimeoutMs config), Returned),
                               (SubmitPrompt t, w)] @ post)))"
proof (intro conjI impI allI)
  fix m w
  assume none: "desiredModel config = None \<or> desiredModel config = Some []"
  show "(EnsureModelSelection m, w) \<notin> set (trace (snd (runBrowserMode E opts)))"
  proof
    assume "(EnsureModelSelection m, w) \<in> set (trace (snd (runBrowserMode E opts)))"
    from run_shape [OF this _ assms] obtain p chrome
      where "(EnsureModelSelection m, w) \<in> set (upToFailure (attempt E config chrome p))"
      by auto
    with set_upToFailure have "(EnsureModelSelection m, w) \<in> set (attempt E config chrome p)"
      by blast
    with none show False
      by (auto simp: attempt_def sched_defs truthy_def split: if_splits)
  qed
next
  fix m i
  assume some: "desiredModel config = Some m \<and> m \<noteq> []"
    and "(EnsurePromptReady i, Returned) \<in> set (trace (snd (runBrowserMode E opts)))"
  from run_shape [OF this(2) _ assms] obtain p d chrome
    where inn: "(EnsurePromptReady i, Returned) \<in> set (upToFailure (attempt E config chrome p))"
      and tr: "trace (snd (runBrowserMode E opts)) =
               [(Mkdtemp, Returned), (LaunchChrome d, Returned),
                (RegisterTerminationHooks d (keepBrowser config), how (gives (registerTerminationHooks E)))]
               @ upToFailure (attempt E config chrome p)
               @ cleanup E config d (how (gives (connectToChrome E)) = Returned)
                   (how (gives (registerTerminationHooks E)) = Returned)"
    by auto
  let ?A = "(ConnectToChrome (port chrome), how (gives (connectToChrome E))) # preparing E config @ priming E config
     @ [(NavigateToChatGPT (url config), how (gives (navigateToChatGPT E))),
        (EnsureNotBlocked (headless config), how (gives (ensureNotBlocked E)))]"
  let ?y = "(EnsurePromptReady (inputTimeoutMs config), how (gives (ensurePromptReady E)))"
  let ?sel = "(EnsureModelSelection m, how (gives (ensureModelSelection E)))"
  let ?B = "(EnsurePromptReady (inputTimeoutMs config), how (gives (ensurePromptReady_again E)))
            # answering E config p"
  from some have att: "attempt E config chrome p = ?A @ ?y # ?sel # ?B"
    by (simp add: attempt_def schedule_def selecting_def truthy_def)
  have noA: "\<forall>z \<in> set ?A. fst z \<noteq> EnsurePromptReady i"
    by (auto simp: preparing_def priming_def)
  from upToFailure_split [OF inn [unfolded att] noA]
  have up: "upToFailure (?A @ ?y # ?sel # ?B) = ?A @ upToFailure (?y # ?sel # ?B)"
    by blast
  from inn [unfolded att up] noA have "(EnsurePromptReady i, Returned) \<in> set (upToFailure (?y # ?sel # ?B))"
    by force
  then have "how (gives (ensurePromptReady E)) = Returned"
    by (cases "how (gives (ensurePromptReady E))") auto
  then have "?sel \<in> set (upToFailure (?y # ?sel # ?B))"
    by (cases "how (gives (ensureModelSelection E))") (simp_all del: how_simps)
  then have "?sel \<in> set (trace (snd (runBrowserMode E opts)))"
    unfolding tr att up by simp
  then show "\<exists>w. (EnsureModelSelection m, w) \<in> set (trace (snd (runBrowserMode E opts)))"
    by blast
next
  fix m t w
  assume some: "desiredModel config = Some m \<and> m \<noteq> []"
    and "(SubmitPrompt t, w) \<in> set (trace (snd (runBrowserMode E opts)))"
  from run_shape [OF this(2) _ assms] obtain p d chrome
    where inn: "(SubmitPrompt t, w) \<in> set (upToFailure (attempt E config chrome p))"
      and tr: "trace (snd (runBrowserMode E opts)) =
               [(Mkdtemp, Returned), (LaunchChrome d, Returned),
                (RegisterTerminationHooks d (keepBrowser config), how (gives (registerTerminationHooks E)))]
               @ upToFailure (attempt E config chrome p)
               @ cleanup E config d (how (gives (connectToChrome E)) = Returned)
                   (how (gives (registerTerminationHooks E)) = Returned)"
    by auto
  let ?A0 = "(ConnectToChrome (port chrome), how (gives (connectToChrome E))) # preparing E config @ priming E config
     @ [(NavigateToChatGPT (url config), how (gives (navigateToChatGPT E))),
        (EnsureNotBlocked (headless config), how (gives (ensureNotBlocked E))),
        (EnsurePromptReady (inputTimeoutMs config), how (gives (ensurePromptReady E)))]"
  let ?S = "[(EnsureModelSelection m, how (gives (ensureModelSelection E))),
            (EnsurePromptReady (inputTimeoutMs config), how (gives (ensurePromptReady_again E)))]"
  let ?y = "(SubmitPrompt p, how (gives (submitPrompt E)))"
  let ?B = "[(WaitForAssistantResponse (timeoutMs config), how (gives (waitForAssistantResponse E))),
             (CaptureAssistantMarkdown, how (gives (captureAssistantMarkdown E)))]"
  from some have att: "attempt E config chrome p = (?A0 @ ?S) @ ?y # ?B"
    by (simp add: attempt_def schedule_def selecting_def answering_def truthy_def)
  have noA: "\<forall>z \<in> set (?A0 @ ?S). fst z \<noteq> SubmitPrompt t"
    by (auto simp: preparing_def priming_def)
  have noB: "\<forall>z \<in> set ?B. fst z \<noteq> SubmitPrompt t"
    by simp
  from upToFailure_reach [OF inn [unfolded att] noA noB] obtain rest
    where okA: "overall (?A0 @ ?S) = Returned" and y: "?y = (SubmitPrompt t, w)"
      and up: "upToFailure ((?A0 @ ?S) @ ?y # ?B) = (?A0 @ ?S) @ (SubmitPrompt t, w) # rest"
    by blast
  from up have up': "upToFailure (attempt E config chrome p) = (?A0 @ ?S) @ (SubmitPrompt t, w) # rest"
    by (simp only: att)
  from okA have "\<forall>x \<in> set ?S. snd x = Returned"
    by (simp only: overall_Returned_iff set_append) blast
  then have S: "?S = [(EnsureModelSelection m, Returned), (EnsurePromptReady (inputTimeoutMs config), Returned)]"
    by (simp del: how_simps)
  let ?pre = "[(Mkdtemp, Returned), (LaunchChrome d, Returned),
                (RegisterTerminationHooks d (keepBrowser config), how (gives (registerTerminationHooks E)))] @ ?A0"
  let ?post = "rest @ cleanup E config d (how (gives (connectToChrome E)) = Returned)
                   (how (gives (registerTerminationHooks E)) = Returned)"
  have "trace (snd (runBrowserMode E opts)) =
          ?pre @ [(EnsureModelSelection m, Returned),
                  (EnsurePromptReady (inputTimeoutMs config), Returned),
                  (SubmitPrompt t, w)] @ ?post"
    unfolding tr up' S by simp
  then show "\<exists>pre post. trace (snd (runBrowserMode E opts)) =
                        pre @ [(EnsureModelSelection m, Returned),
                               (EnsurePromptReady (inputTimeoutMs config), Returned),
                               (SubmitPrompt t, w)] @ post"
    by blast
qed


theorem model_selection_witness:
  "resolveBrowserConfig calm = Inr plainConfig
   \<and> desiredModel plainConfig = Some (lit ''GPT-5'') \<and> lit ''GPT-5'' \<noteq> []
   \<and> (EnsurePromptReady 30000, Returned) \<in> set (trace (snd (runBrowserMode calm sayOk)))
   \<and> (\<exists>w. (EnsureModelSelection (lit ''GPT-5''), w) \<in> set (trace (snd (runBrowserMode calm sayOk))))
   \<and> (SubmitPrompt [0x53, 0x61, 0x79, 0x20, 0x4F, 0x4B, 0x2E], Returned)
        \<in> set (trace (snd (runBrowserMode calm sayOk)))
   \<and> (\<exists>pre post. trace (snd (runBrowserMode calm sayOk)) =
          pre @ [(EnsureModelSelection (lit ''GPT-5''), Returned), (EnsurePromptReady 30000, Returned),
                 (SubmitPrompt [0x53, 0x61, 0x79, 0x20, 0x4F, 0x4B, 0x2E], Returned)] @ post)
   \<and> resolveBrowserConfig modelless = Inr (plainConfig\<lparr>desiredModel := None\<rparr>)
   \<and> (\<forall>m w. (EnsureModelSelection m, w) \<notin> set (trace (snd (runBrowserMode modelless sayOk))))"
proof -
  have h1: "resolveBrowserConfig calm = Inr plainConfig"
    by (simp add: calm_def)
  have h2: "desiredModel plainConfig = Some (lit ''GPT-5'')" "lit ''GPT-5'' \<noteq> []"
    "inputTimeoutMs plainConfig = 30000"
    by (simp_all add: plainConfig_def)
  have h3: "(EnsurePromptReady 30000, Returned) \<in> set (trace (snd (runBrowserMode calm sayOk)))"
    "(SubmitPrompt [0x53, 0x61, 0x79, 0x20, 0x4F, 0x4B, 0x2E], Returned)
        \<in> set (trace (snd (runBrowserMode calm sayOk)))"
    by (simp_all add: calm_trace)
  have h4: "resolveBrowserConfig modelless = Inr (plainConfig\<lparr>desiredModel := None\<rparr>)"
    by (simp add: modelless_def)
  from model_selection_iff_configured [OF h1, of sayOk] h2 h3
  have a: "\<exists>w. (EnsureModelSelection (lit ''GPT-5''), w) \<in> set (trace (snd (runBrowserMode calm sayOk)))"
    and b: "\<exists>pre post. trace (snd (runBrowserMode calm sayOk)) =
          pre @ [(EnsureModelSelection (lit ''GPT-5''), Returned), (EnsurePromptReady 30000, Returned),
                 (SubmitPrompt [0x53, 0x61, 0x79, 0x20, 0x4F, 0x4B, 0x2E], Returned)] @ post"
    by auto
  from model_selection_iff_configured [OF h4, of sayOk]
  have c: "\<forall>m w. (EnsureModelSelection m, w) \<notin> set (trace (snd (runBrowserMode modelless sayOk)))"
    by simp
  from h1 h2 h3 h4 a b c show ?thesis by blast
qed

subsection \<open>The profile directory\<close>









lemma run_cases [case_names invalid unresolved no_dir no_launch launched]:
  obtains "\<not> (\<exists>p. validPrompt opts p)"
  | p e where "validPrompt opts p" "resolveBrowserConfig E = Inl e"
  | p config e where "validPrompt opts p" "resolveBrowserConfig E = Inr config" "mkdtemp E = Inl e"
  | p config d e where "validPrompt opts p" "resolveBrowserConfig E = Inr config" "mkdtemp E = Inr d"
      "gives (launchChrome E) = Inl e"
  | p config d chrome where "validPrompt opts p" "resolveBrowserConfig E = Inr config" "mkdtemp E = Inr d"
      "gives (launchChrome E) = Inr chrome"
proof (cases "\<exists>p. validPrompt opts p")
  case False
  then show ?thesis using that(1) by blast
next
  case True
  then obtain p where p: "validPrompt opts p" ..
  show ?thesis
  proof (cases "resolveBrowserConfig E")
    case (Inl e)
    with p show ?thesis using that(2) by blast
  next
    case cfg: (Inr config)
    show ?thesis
    proof (cases "mkdtemp E")
      case (Inl e)
      with p cfg show ?thesis using that(3) by blast
    next
      case dir: (Inr d)
      show ?thesis
      proof (cases "gives (launchChrome E)")
        case (Inl e)
        with p cfg dir show ?thesis using that(4) by blast
      next
        case (Inr chrome)
        with p cfg dir show ?thesis using that(5) by blast
      qed
    qed
  qed
qed

lemma attempt_only:
  assumes "x \<in> set (upToFailure (attempt E config chrome p))"
  shows "fst x \<noteq> Mkdtemp" "fst x \<noteq> Rm d" "fst x \<noteq> ChromeKill"
    "fst x \<noteq> ClientClose" "fst x \<noteq> RemoveTerminationHooks"
  using phase_attempt [OF assms] by auto






subsection \<open>Runs that differ in one collaborator\<close>

lemma agree_andThen:
  assumes "agree R m m'" and "\<And>v. agree R (f v) (f' v)"
  shows "agree R (andThen m f) (andThen m' f')"
  unfolding agree_def
proof (intro allI impI)
  fix s s' assume R: "R s s'"
  obtain r s1 where ms: "m s = (r, s1)" by (cases "m s")
  obtain r' s1' where ms': "m' s' = (r', s1')" by (cases "m' s'")
  from assms(1) [unfolded agree_def, rule_format, OF R] ms ms' have eq: "r' = r" and R1: "R s1 s1'"
    by simp_all
  show "fst (andThen m f s) = fst (andThen m' f' s') \<and> R (snd (andThen m f s)) (snd (andThen m' f' s'))"
  proof (cases r)
    case (Inl e)
    with ms ms' eq R1 show ?thesis by (simp add: andThen_def)
  next
    case (Inr v)
    from assms(2) [of v] R1 have "fst (f v s1) = fst (f' v s1') \<and> R (snd (f v s1)) (snd (f' v s1'))"
      by (simp add: agree_def)
    with Inr ms ms' eq show ?thesis by (simp add: andThen_def)
  qed
qed

lemma agree_if: "agree R m m' \<Longrightarrow> agree R n n' \<Longrightarrow> agree R (if c then m else n) (if c then m' else n')"
  by simp

lemma agree_exceptLog:
  "gives r = gives r' \<Longrightarrow> agree exceptLog (await ev r) (await ev r')"
  "agree exceptLog (invoke ev q) (invoke ev q)"
  "agree exceptLog (issue ev) (issue ev)"
  "agree exceptLog (logger l) (logger l')"
  "agree exceptLog (ret v) (ret v)"
  by (simp_all add: agree_def exceptLog_def act_defs)

lemma agree_exceptTrace:
  "agree exceptTrace (await ev r) (await ev r)"
  "agree exceptTrace (invoke ev q) (invoke ev q)"
  "agree exceptTrace (issue ev) (issue ev)"
  "agree exceptTrace (logger l) (logger l)"
  "agree exceptTrace (ret v) (ret v)"
  by (simp_all add: agree_def exceptTrace_def act_defs)

lemma session_exceptTrace:
  "agree exceptTrace (session E config chrome dir p st) (session E config chrome dir p st)"
  unfolding session_def
  by (intro agree_andThen agree_if agree_exceptTrace)
     (simp_all add: agree_def exceptTrace_def assign_def split: option.splits)

lemma agree_sync:
  "gives r = Inr n \<Longrightarrow> gives r' = Inr n'
     \<Longrightarrow> agree exceptLog (andThen (await ev r) (\<lambda>c. logger (l c))) (andThen (await ev r') (\<lambda>c. logger (l' c)))"
  by (simp add: agree_def exceptLog_def act_defs)

lemma session_exceptLog:
  assumes "gives r = Inr n" "gives r' = Inr n'"
  shows "agree exceptLog (session (E\<lparr>syncCookies := r\<rparr>) config chrome dir p st)
                         (session (E\<lparr>syncCookies := r'\<rparr>) config chrome dir p st)"
  unfolding session_def
  apply (simp split del: if_split cong: if_cong)
  apply (rule agree_andThen)
   apply (rule agree_if, rule agree_exceptLog(1) [OF refl], rule agree_exceptLog(5))
  apply (rule agree_andThen, rule agree_exceptLog(3))+
  apply (rule agree_andThen, rule agree_exceptLog(2))+
  apply (rule agree_andThen)
   apply (rule agree_if, rule agree_sync [OF assms], rule agree_exceptLog(4))
  apply (intro agree_andThen agree_if agree_exceptLog refl)
   apply (simp_all add: agree_def exceptLog_def assign_def split: option.splits)
  done


lemma exceptLog_refl [simp]: "exceptLog s s"
  by (simp add: exceptLog_def)

lemma tryBlock_exceptLog:
  assumes "gives r = Inr n" "gives r' = Inr n'"
  shows "agree exceptLog (tryBlock (E\<lparr>syncCookies := r\<rparr>) config chrome dir p st)
                         (tryBlock (E\<lparr>syncCookies := r'\<rparr>) config chrome dir p st)"
  unfolding tryBlock_def
  apply (rule agree_andThen)
   apply (rule agree_exceptLog(1), simp)
  apply (rule agree_andThen)
   apply (simp add: agree_def exceptLog_def assign_def)
  apply (rule session_exceptLog [OF assms])
  done

lemma catchBlock_exceptLog:
  "exceptLog s s' \<Longrightarrow> exceptLog (catchBlock E config e s) (catchBlock E' config e s')"
  by (simp add: exceptLog_def catchBlock_def Let_def logger_def split: thrown.splits option.splits)

lemma finallyBlock_exceptLog:
  "exceptLog s s' \<Longrightarrow> exceptLog (finallyBlock (E\<lparr>syncCookies := r\<rparr>) config chrome dir st hooks s)
                               (finallyBlock (E\<lparr>syncCookies := r'\<rparr>) config chrome dir st hooks s')"
  by (simp add: exceptLog_def finallyBlock_def Let_def act_defs)

lemma guarded_exceptLog:
  assumes "gives r = Inr n" "gives r' = Inr n'"
  shows "agree exceptLog (guarded (E\<lparr>syncCookies := r\<rparr>) config chrome dir p hooks)
                         (guarded (E\<lparr>syncCookies := r'\<rparr>) config chrome dir p hooks)"
  unfolding agree_def
proof (intro allI impI)
  fix s s' assume R: "exceptLog s s'"
  let ?E = "E\<lparr>syncCookies := r\<rparr>" and ?E' = "E\<lparr>syncCookies := r'\<rparr>"
  obtain x s1 where t: "tryBlock ?E config chrome dir p (now_start E) s = (x, s1)"
    by (cases "tryBlock ?E config chrome dir p (now_start E) s")
  obtain x' s1' where t': "tryBlock ?E' config chrome dir p (now_start E) s' = (x', s1')"
    by (cases "tryBlock ?E' config chrome dir p (now_start E) s'")
  from tryBlock_exceptLog [OF assms, of E config chrome dir p "now_start E", unfolded agree_def, rule_format, OF R] t t'
  have eq: "x' = x" and R1: "exceptLog s1 s1'" by simp_all
  show "fst (guarded ?E config chrome dir p hooks s) = fst (guarded ?E' config chrome dir p hooks s')
        \<and> exceptLog (snd (guarded ?E config chrome dir p hooks s)) (snd (guarded ?E' config chrome dir p hooks s'))"
    using t t' eq R1
    by (cases x) (simp_all add: guarded_def Let_def finallyBlock_exceptLog catchBlock_exceptLog)
qed

lemma run_exceptLog:
  assumes "gives r = Inr n" "gives r' = Inr n'"
  shows "fst (steps (E\<lparr>syncCookies := r\<rparr>) opts init) = fst (steps (E\<lparr>syncCookies := r'\<rparr>) opts init)"
    and "trace (snd (steps (E\<lparr>syncCookies := r\<rparr>) opts init))
           = trace (snd (steps (E\<lparr>syncCookies := r'\<rparr>) opts init))"
proof -
  let ?E = "E\<lparr>syncCookies := r\<rparr>" and ?E' = "E\<lparr>syncCookies := r'\<rparr>"
  have "fst (steps ?E opts init) = fst (steps ?E' opts init)
        \<and> trace (snd (steps ?E opts init)) = trace (snd (steps ?E' opts init))"
  proof (cases rule: run_cases [where opts = opts and E = E])
    case invalid
    then show ?thesis by (simp add: steps_invalid)
  next
    case (unresolved p e)
    then show ?thesis by (simp add: steps_unresolved [of opts p _ e])
  next
    case (no_dir p config e)
    then show ?thesis
      using steps_no_dir [of opts p ?E config e init] steps_no_dir [of opts p ?E' config e init]
      by simp
  next
    case (no_launch p config d e)
    then show ?thesis
      using steps_no_launch [of opts p ?E config d e init] steps_no_launch [of opts p ?E' config d e init]
      by simp
  next
    case (launched p config d chrome)
    have e: "entered ?E config d init = entered ?E' config d init"
      by (simp add: entered_def)
    from launched have s: "steps ?E opts init = guarded ?E config chrome d p
          (how (gives (registerTerminationHooks E)) = Returned) (entered ?E config d init)"
      "steps ?E' opts init = guarded ?E' config chrome d p
          (how (gives (registerTerminationHooks E)) = Returned) (entered ?E' config d init)"
      using steps_launched [of opts p ?E config d chrome init] steps_launched [of opts p ?E' config d chrome init]
      by simp_all
    from guarded_exceptLog [OF assms, of E config chrome d p, unfolded agree_def, rule_format, of "entered ?E config d init" "entered ?E' config d init"]
    show ?thesis unfolding s e by (simp add: exceptLog_def)
  qed
  then show "fst (steps ?E opts init) = fst (steps ?E' opts init)"
    and "trace (snd (steps ?E opts init)) = trace (snd (steps ?E' opts init))"
    by simp_all
qed


subsection \<open>Lines that reach the sink\<close>

lemma ensures_step:
  "gives r = Inr v \<Longrightarrow> ensures (f v) P \<Longrightarrow> ensures (andThen (await ev r) f) P"
  "r' = Inr v' \<Longrightarrow> ensures (f' v') P \<Longrightarrow> ensures (andThen (invoke ev r') f') P"
  "ensures (g ()) P \<Longrightarrow> ensures (andThen (issue ev) g) P"
  "ensures (g ()) P \<Longrightarrow> ensures (andThen (assign h) g) P"
  by (simp_all add: ensures_def act_defs)

lemma ensures_if_await:
  "(c \<Longrightarrow> gives r = Inr v) \<Longrightarrow> ensures (f v) P
     \<Longrightarrow> ensures (andThen (if c then await ev r else ret v) f) P"
  by (simp add: ensures_def act_defs)

lemma ensures_line:
  assumes "c" "gives r = Inr n" "\<And>v. keeps (\<lambda>s. l n \<in> set (logged s)) (f v)"
  shows "ensures (andThen (if c then andThen (await ev r) (\<lambda>n. logger (l n)) else m) f)
           (\<lambda>s. l n \<in> set (logged s))"
  using assms by (simp add: ensures_def keeps_def act_defs)

lemma keeps_line:
  "keeps (\<lambda>s. l \<in> set (logged s)) (await ev r)" "keeps (\<lambda>s. l \<in> set (logged s)) (invoke ev r')"
  "keeps (\<lambda>s. l \<in> set (logged s)) (issue ev)" "keeps (\<lambda>s. l \<in> set (logged s)) (logger l')"
  "keeps (\<lambda>s. l \<in> set (logged s)) (ret v)"
  by (simp_all add: keeps_def act_defs)

lemma session_warns:
  assumes "cookieSync config" "gives (syncCookies E) = Inr 0"
    and "enableAll E = Inr ()" "clearBrowserCookies E = Inr ()"
    and "\<not> headless config \<and> hideWindow config \<Longrightarrow> gives (hideChromeWindow E) = Inr ()"
  shows "ensures (session E config chrome dir p st) (\<lambda>s. noCookiesLine \<in> set (logged s))"
proof -
  let ?l = "\<lambda>cookieCount::int. if cookieCount > 0
                        then lit ''Copied '' @ showInt cookieCount @ lit '' cookies from Chrome profile ''
                             @ (case chromeProfile config of None \<Rightarrow> lit ''Default'' | Some p \<Rightarrow> p)
                        else lit ''No Chrome cookies found; continuing without session reuse''"
  have l0: "?l 0 = noCookiesLine" by (simp add: noCookiesLine_def)
  have "ensures (session E config chrome dir p st) (\<lambda>s. ?l 0 \<in> set (logged s))"
    unfolding session_def
    apply (rule ensures_if_await [OF assms(5)], assumption)
    apply (rule ensures_step(3))+
    apply (rule ensures_step(2) [OF assms(3)])
    apply (rule ensures_step(2) [OF assms(4)])
    apply (rule ensures_line [where l = ?l, OF assms(1,2)])
    apply (intro keeps_andThen keeps_if keeps_line)
     apply (simp_all add: keeps_def assign_def)
    done
  then show ?thesis unfolding l0 .
qed

lemma tryBlock_warns:
  assumes "cookieSync config" "gives (syncCookies E) = Inr 0"
    and "enableAll E = Inr ()" "clearBrowserCookies E = Inr ()"
    and "\<not> headless config \<and> hideWindow config \<Longrightarrow> gives (hideChromeWindow E) = Inr ()"
    and "gives (connectToChrome E) = Inr ()"
  shows "ensures (tryBlock E config chrome dir p st) (\<lambda>s. noCookiesLine \<in> set (logged s))"
  unfolding tryBlock_def
  by (intro ensures_step(1) [OF assms(6)] ensures_step(4) session_warns [OF assms(1-5)])

lemma catchBlock_logged: "set (logged s) \<subseteq> set (logged (catchBlock E config error s))"
  by (auto simp: catchBlock_def Let_def logger_def split: thrown.splits option.splits)

lemma guarded_logged:
  "set (logged (snd (tryBlock E config chrome dir p (now_start E) s)))
     \<subseteq> set (logged (snd (guarded E config chrome dir p hooks s)))"
  using catchBlock_logged finallyBlock_logged
  by (fastforce simp: guarded_def Let_def split: prod.splits sum.splits)


lemma sync_returned:
  assumes "resolveBrowserConfig E = Inr config"
    and "(SyncCookies u c, Returned) \<in> set (trace (snd (runBrowserMode E opts)))"
  shows "\<exists>p d chrome w. validPrompt opts p \<and> mkdtemp E = Inr d \<and> gives (launchChrome E) = Inr chrome
           \<and> cookieSync config \<and> u = url config
           \<and> gives (connectToChrome E) = Inr () \<and> enableAll E = Inr () \<and> clearBrowserCookies E = Inr ()
           \<and> (\<not> headless config \<and> hideWindow config \<longrightarrow> gives (hideChromeWindow E) = Inr ())
           \<and> (\<exists>n. gives (syncCookies E) = Inr n)
           \<and> (NavigateToChatGPT u, w) \<in> set (trace (snd (runBrowserMode E opts)))"
proof -
  from run_started [OF assms(2)] assms(1)
  obtain p d chrome where st: "validPrompt opts p" "resolveBrowserConfig E = Inr config"
    "mkdtemp E = Inr d" "gives (launchChrome E) = Inr chrome"
    by auto
  from in_attempt [OF st assms(2)]
  have inn: "(SyncCookies u c, Returned) \<in> set (upToFailure (attempt E config chrome p))" by simp
  with set_upToFailure have "(SyncCookies u c, Returned) \<in> set (attempt E config chrome p)" by blast
  then have cs: "cookieSync config" and u: "u = url config" and sy: "how (gives (syncCookies E)) = Returned"
    by (auto simp: attempt_def sched_defs simp del: how_simps split: if_splits)
  let ?A = "(ConnectToChrome (port chrome), how (gives (connectToChrome E))) # preparing E config"
  let ?y = "(SyncCookies (url config) (chromeProfile config), Returned)"
  let ?nav = "(NavigateToChatGPT (url config), how (gives (navigateToChatGPT E)))"
  let ?B = "(EnsureNotBlocked (headless config), how (gives (ensureNotBlocked E)))
     # (EnsurePromptReady (inputTimeoutMs config), how (gives (ensurePromptReady E)))
     # selecting E config @ answering E config p"
  from cs sy have att: "attempt E config chrome p = ?A @ ?y # ?nav # ?B"
    by (simp add: attempt_def schedule_def priming_def del: how_simps)
  have noA: "\<forall>z \<in> set ?A. fst z \<noteq> SyncCookies u c"
    by (auto simp: preparing_def)
  from upToFailure_split [OF inn [unfolded att] noA]
  have okA: "overall ?A = Returned" and up: "upToFailure (?A @ ?y # ?nav # ?B) = ?A @ upToFailure (?y # ?nav # ?B)"
    by blast+
  have "?nav \<in> set (upToFailure (?y # ?nav # ?B))"
    by (cases "how (gives (navigateToChatGPT E))") (simp_all del: how_simps)
  then have nav: "?nav \<in> set (trace (snd (runBrowserMode E opts)))"
    unfolding run_trace [OF st] att up by simp
  from okA have "how (gives (connectToChrome E)) = Returned" "how (enableAll E) = Returned"
    "how (clearBrowserCookies E) = Returned"
    "\<not> headless config \<and> hideWindow config \<longrightarrow> how (gives (hideChromeWindow E)) = Returned"
    by (auto simp: overall_Returned_iff preparing_def simp del: how_simps)
  with st cs u sy nav show ?thesis by auto
qed

text \<open>
  Claim C7. A cookie sync that returns zero is no error: the run with zero cookies
  returns or throws exactly what the run with any other count does, through the very
  same calls; whenever the sync was reached and returned zero, the run goes on to
  navigate, and a supplied log sink receives the line ``No Chrome cookies found;
  continuing without session reuse''.
\<close>

theorem zero_cookies_is_not_an_error:
  assumes "gives (syncCookies E) = Inr 0"
  shows "outcome (runBrowserMode E opts)
           = outcome (runBrowserMode (E\<lparr>syncCookies := \<lparr>says = says (syncCookies E), gives = Inr n\<rparr>\<rparr>) opts)
       \<and> trace (snd (runBrowserMode E opts))
           = trace (snd (runBrowserMode (E\<lparr>syncCookies := \<lparr>says = says (syncCookies E), gives = Inr n\<rparr>\<rparr>) opts))
       \<and> (\<forall>config u c. resolveBrowserConfig E = Inr config
              \<and> (SyncCookies u c, Returned) \<in> set (trace (snd (runBrowserMode E opts)))
            \<longrightarrow> (\<exists>w. (NavigateToChatGPT u, w) \<in> set (trace (snd (runBrowserMode E opts))))
                \<and> (logSupplied opts \<longrightarrow> noCookiesLine \<in> set (sink (runBrowserMode E opts))))"
proof (intro conjI allI impI)
  let ?E' = "E\<lparr>syncCookies := \<lparr>says = says (syncCookies E), gives = Inr n\<rparr>\<rparr>"
  have E: "E\<lparr>syncCookies := syncCookies E\<rparr> = E" by simp
  have g: "gives \<lparr>says = says (syncCookies E), gives = Inr n\<rparr> = Inr n" by simp
  from run_exceptLog [OF assms g, of E opts, unfolded E]
  show "outcome (runBrowserMode E opts) = outcome (runBrowserMode ?E' opts)"
    and "trace (snd (runBrowserMode E opts)) = trace (snd (runBrowserMode ?E' opts))"
    by (simp_all add: outcome_def run_fst run_trace_steps)
next
  fix config u c
  assume a: "resolveBrowserConfig E = Inr config
              \<and> (SyncCookies u c, Returned) \<in> set (trace (snd (runBrowserMode E opts)))"
  from sync_returned [of E config u c opts] a
  obtain p d chrome w where st: "validPrompt opts p" "resolveBrowserConfig E = Inr config"
      "mkdtemp E = Inr d" "gives (launchChrome E) = Inr chrome"
    and f: "cookieSync config" "enableAll E = Inr ()" "clearBrowserCookies E = Inr ()"
      "\<not> headless config \<and> hideWindow config \<Longrightarrow> gives (hideChromeWindow E) = Inr ()"
      "gives (connectToChrome E) = Inr ()"
    and nav: "(NavigateToChatGPT u, w) \<in> set (trace (snd (runBrowserMode E opts)))"
    by auto
  from nav show "\<exists>w. (NavigateToChatGPT u, w) \<in> set (trace (snd (runBrowserMode E opts)))" ..
  assume sup: "logSupplied opts"
  from tryBlock_warns [OF f(1) assms f(2,3,4,5), of chrome d p "now_start E"]
  have "noCookiesLine \<in> set (logged (snd (tryBlock E config chrome d p (now_start E) (entered E config d init))))"
    by (simp add: ensures_def)
  with guarded_logged
  have "noCookiesLine \<in> set (logged (snd (steps E opts init)))"
    unfolding steps_launched [OF st] by blast
  with sup show "noCookiesLine \<in> set (sink (runBrowserMode E opts))"
    by (simp add: sink_def run_logged)
qed

lemma cookieless_trace: "trace (snd (runBrowserMode cookieless sayOk)) = trace (snd (runBrowserMode calm sayOk))"
  and cookieless_outcome: "outcome (runBrowserMode cookieless sayOk) = outcome (runBrowserMode calm sayOk)"
proof -
  have g: "gives \<lparr>says = [], gives = Inr (0::int)\<rparr> = Inr 0" "gives (syncCookies calm) = Inr 3"
    by (simp_all add: calm_def quiet_def)
  have c: "calm\<lparr>syncCookies := syncCookies calm\<rparr> = calm" by simp
  from run_exceptLog [OF g, of calm sayOk, unfolded c]
  show "trace (snd (runBrowserMode cookieless sayOk)) = trace (snd (runBrowserMode calm sayOk))"
    and "outcome (runBrowserMode cookieless sayOk) = outcome (runBrowserMode calm sayOk)"
    by (simp_all add: cookieless_def outcome_def run_fst run_trace_steps)
qed

theorem zero_cookies_witness:
  "gives (syncCookies cookieless) = Inr 0
   \<and> resolveBrowserConfig cookieless = Inr plainConfig
   \<and> (SyncCookies (lit ''https://chatgpt.com/'') None, Returned) \<in> set (trace (snd (runBrowserMode cookieless sayOk)))
   \<and> logSupplied sayOk
   \<and> noCookiesLine \<in> set (sink (runBrowserMode cookieless sayOk))
   \<and> (\<exists>w. (NavigateToChatGPT (lit ''https://chatgpt.com/''), w) \<in> set (trace (snd (runBrowserMode cookieless sayOk))))
   \<and> outcome (runBrowserMode cookieless sayOk) = Inr okResult"
proof -
  have h: "gives (syncCookies cookieless) = Inr 0" "resolveBrowserConfig cookieless = Inr plainConfig"
    "logSupplied sayOk"
    by (simp_all add: cookieless_def calm_def sayOk_def)
  have t: "(SyncCookies (lit ''https://chatgpt.com/'') None, Returned)
             \<in> set (trace (snd (runBrowserMode cookieless sayOk)))"
    by (simp add: cookieless_trace calm_trace)
  from zero_cookies_is_not_an_error [OF h(1), of sayOk 3] h t
  have "noCookiesLine \<in> set (sink (runBrowserMode cookieless sayOk))"
    "\<exists>w. (NavigateToChatGPT (lit ''https://chatgpt.com/''), w) \<in> set (trace (snd (runBrowserMode cookieless sayOk)))"
    by blast+
  with h t cookieless_outcome calm_outcome show ?thesis by simp
qed

subsection \<open>The lines of a run in which every call returns\<close>

lemma writes_step:
  "gives r = Inr v \<Longrightarrow> writes (f v) ls \<Longrightarrow> writes (andThen (await ev r) f) (says r @ ls)"
  "r' = Inr v' \<Longrightarrow> writes (f' v') ls \<Longrightarrow> writes (andThen (invoke ev r') f') ls"
  "writes (g ()) ls \<Longrightarrow> writes (andThen (issue ev) g) ls"
  "writes (g ()) ls \<Longrightarrow> writes (andThen (logger l) g) (l # ls)"
  "(\<And>s. logged (h s) = logged s) \<Longrightarrow> writes (g ()) ls \<Longrightarrow> writes (andThen (assign h) g) ls"
  by (simp_all add: writes_def act_defs)

lemma writes_if_await:
  "(c \<Longrightarrow> gives r = Inr v) \<Longrightarrow> writes (f v) ls
     \<Longrightarrow> writes (andThen (if c then await ev r else ret v) f) ((if c then says r else []) @ ls)"
  by (simp add: writes_def act_defs)

lemma writes_if_await_logger:
  "(c \<Longrightarrow> gives r = Inr n) \<Longrightarrow> writes (f ()) ls
     \<Longrightarrow> writes (andThen (if c then andThen (await ev r) (\<lambda>n. logger (l n)) else logger l') f)
           ((if c then says r @ [l n] else [l']) @ ls)"
  by (simp add: writes_def act_defs)

lemma writes_if_await_await:
  "(c \<Longrightarrow> gives r = Inr u) \<Longrightarrow> (c \<Longrightarrow> gives r' = Inr v) \<Longrightarrow> writes (f v) ls
     \<Longrightarrow> writes (andThen (if c then andThen (await ev r) (\<lambda>_. await ev' r') else ret v) f)
           ((if c then says r @ says r' else []) @ ls)"
  by (simp add: writes_def act_defs)

lemma calm_writes:
  "writes (tryBlock calm plainConfig chrome dir p st)
     [lit ''Copied '' @ showInt 3 @ lit '' cookies from Chrome profile '' @ lit ''Default'']"
proof -
  have ok: "gives (connectToChrome calm) = Inr ()" "enableAll calm = Inr ()" "clearBrowserCookies calm = Inr ()"
    "gives (navigateToChatGPT calm) = Inr ()" "gives (ensureNotBlocked calm) = Inr ()"
    "gives (ensurePromptReady calm) = Inr ()" "gives (submitPrompt calm) = Inr ()"
    "gives (waitForAssistantResponse calm)
       = Inr \<lparr>a_text = lit ''OK'', a_html = Some (lit ''<p>OK</p>''), a_meta = lit ''turn-1''\<rparr>"
    "gives (captureAssistantMarkdown calm) = Inr (Some (lit ''**OK**''))"
    and hide: "\<not> headless plainConfig \<and> hideWindow plainConfig \<Longrightarrow> gives (hideChromeWindow calm) = Inr ()"
    and sync: "cookieSync plainConfig \<Longrightarrow> gives (syncCookies calm) = Inr 3"
    and model: "truthy (desiredModel plainConfig) \<Longrightarrow> gives (ensureModelSelection calm) = Inr ()"
      "truthy (desiredModel plainConfig) \<Longrightarrow> gives (ensurePromptReady_again calm) = Inr ()"
    by (simp_all add: calm_def quiet_def)
  have q: "says (connectToChrome calm) = []" "says (hideChromeWindow calm) = []" "says (syncCookies calm) = []"
    "says (navigateToChatGPT calm) = []" "says (ensureNotBlocked calm) = []" "says (ensurePromptReady calm) = []"
    "says (ensureModelSelection calm) = []" "says (ensurePromptReady_again calm) = []"
    "says (submitPrompt calm) = []" "says (waitForAssistantResponse calm) = []"
    "says (captureAssistantMarkdown calm) = []"
    by (simp_all add: calm_def quiet_def)
  have c: "cookieSync plainConfig" "chromeProfile plainConfig = None"
    by (simp_all add: plainConfig_def)
  have "writes (tryBlock calm plainConfig chrome dir p st)
     (says (connectToChrome calm)
      @ (if \<not> headless plainConfig \<and> hideWindow plainConfig then says (hideChromeWindow calm) else [])
      @ (if cookieSync plainConfig
         then says (syncCookies calm)
              @ [if (3::int) > 0
                 then lit ''Copied '' @ showInt 3 @ lit '' cookies from Chrome profile ''
                      @ (case chromeProfile plainConfig of None \<Rightarrow> lit ''Default'' | Some p \<Rightarrow> p)
                 else lit ''No Chrome cookies found; continuing without session reuse'']
         else [lit ''Skipping Chrome cookie sync (--browser-no-cookie-sync)''])
      @ says (navigateToChatGPT calm) @ says (ensureNotBlocked calm) @ says (ensurePromptReady calm)
      @ (if truthy (desiredModel plainConfig)
         then says (ensureModelSelection calm) @ says (ensurePromptReady_again calm) else [])
      @ says (submitPrompt calm) @ says (waitForAssistantResponse calm)
      @ says (captureAssistantMarkdown calm) @ [])"
    unfolding tryBlock_def session_def
    apply (rule writes_step(1) [OF ok(1)])
    apply (rule writes_step(5), simp)
    apply (rule writes_if_await [OF hide], assumption)
    apply (rule writes_step(3))+
    apply (rule writes_step(2) [OF ok(2)])
    apply (rule writes_step(2) [OF ok(3)])
    apply (rule writes_if_await_logger [OF sync], assumption)
    apply (rule writes_step(1) [OF ok(4)])
    apply (rule writes_step(1) [OF ok(5)])
    apply (rule writes_step(1) [OF ok(6)])
    apply (rule writes_if_await_await [OF model], assumption, assumption)
    apply (rule writes_step(1) [OF ok(7)])
    apply (rule writes_step(1) [OF ok(8)])
    apply (rule writes_step(5), simp)
    apply (rule writes_step(1) [OF ok(9)])
    apply (rule writes_step(5), simp)
    apply (simp add: writes_def)
    done
  then show ?thesis by (simp add: q c cong: if_cong)
qed


lemma ensures_if_await_logger:
  "(c \<Longrightarrow> gives r = Inr n) \<Longrightarrow> ensures (f ()) P
     \<Longrightarrow> ensures (andThen (if c then andThen (await ev r) (\<lambda>n. logger (l n)) else logger l') f) P"
  by (simp add: ensures_def act_defs)

lemma ensures_if_await_await:
  "(c \<Longrightarrow> gives r = Inr u) \<Longrightarrow> (c \<Longrightarrow> gives r' = Inr v) \<Longrightarrow> ensures (f v) P
     \<Longrightarrow> ensures (andThen (if c then andThen (await ev r) (\<lambda>_. await ev' r') else ret v) f) P"
  by (simp add: ensures_def act_defs)

lemma calm_completes:
  "ensures (tryBlock calm plainConfig chrome dir p st) (\<lambda>s. runStatus s = complete)"
proof -
  have ok: "gives (connectToChrome calm) = Inr ()" "enableAll calm = Inr ()" "clearBrowserCookies calm = Inr ()"
    "gives (navigateToChatGPT calm) = Inr ()" "gives (ensureNotBlocked calm) = Inr ()"
    "gives (ensurePromptReady calm) = Inr ()" "gives (submitPrompt calm) = Inr ()"
    "gives (waitForAssistantResponse calm)
       = Inr \<lparr>a_text = lit ''OK'', a_html = Some (lit ''<p>OK</p>''), a_meta = lit ''turn-1''\<rparr>"
    "gives (captureAssistantMarkdown calm) = Inr (Some (lit ''**OK**''))"
    and hide: "\<not> headless plainConfig \<and> hideWindow plainConfig \<Longrightarrow> gives (hideChromeWindow calm) = Inr ()"
    and sync: "cookieSync plainConfig \<Longrightarrow> gives (syncCookies calm) = Inr 3"
    and model: "truthy (desiredModel plainConfig) \<Longrightarrow> gives (ensureModelSelection calm) = Inr ()"
      "truthy (desiredModel plainConfig) \<Longrightarrow> gives (ensurePromptReady_again calm) = Inr ()"
    by (simp_all add: calm_def quiet_def)
  show ?thesis
    unfolding tryBlock_def session_def
    apply (rule ensures_step(1) [OF ok(1)])
    apply (rule ensures_step(4))
    apply (rule ensures_if_await [OF hide], assumption)
    apply (rule ensures_step(3))+
    apply (rule ensures_step(2) [OF ok(2)])
    apply (rule ensures_step(2) [OF ok(3)])
    apply (rule ensures_if_await_logger [OF sync], assumption)
    apply (rule ensures_step(1) [OF ok(4)])
    apply (rule ensures_step(1) [OF ok(5)])
    apply (rule ensures_step(1) [OF ok(6)])
    apply (rule ensures_if_await_await [OF model], assumption, assumption)
    apply (rule ensures_step(1) [OF ok(7)])
    apply (rule ensures_step(1) [OF ok(8)])
    apply (simp add: ensures_def act_defs ok)
    done
qed

lemma calm_sink:
  "sink (runBrowserMode calm sayOk) =
     [lit ''Created temporary Chrome profile at '' @ tmpDir,
      lit ''Copied '' @ showInt 3 @ lit '' cookies from Chrome profile '' @ lit ''Default'',
      lit ''Cleanup complete '' @ [bullet] @ lit '' '' @ showInt 1 @ lit ''.'' @ showInt 6 @ lit ''s total'']"
proof -
  let ?p = "[0x53, 0x61, 0x79, 0x20, 0x4F, 0x4B, 0x2E] :: jsstring"
  let ?chrome = "\<lparr>pid = 4242, port = 9222\<rparr>"
  let ?s0 = "entered calm plainConfig tmpDir init"
  have st: "steps calm sayOk init = guarded calm plainConfig ?chrome tmpDir ?p
              (how (gives (registerTerminationHooks calm)) = Returned) ?s0"
    by (rule steps_launched [OF sayOk_valid]) (simp_all add: calm_def quiet_def)
  obtain x s1 where t: "tryBlock calm plainConfig ?chrome tmpDir ?p (now_start calm) ?s0 = (x, s1)"
    by (cases "tryBlock calm plainConfig ?chrome tmpDir ?p (now_start calm) ?s0")
  from calm_outcome have "fst (steps calm sayOk init) = Inr okResult"
    by (simp add: outcome_def run_fst)
  with t have x: "x = Inr okResult"
    by (simp add: st guarded_outcome)
  from calm_writes [of ?chrome tmpDir ?p "now_start calm"] t
  have l1: "logged s1 = logged ?s0
              @ [lit ''Copied '' @ showInt 3 @ lit '' cookies from Chrome profile '' @ lit ''Default'']"
    by (auto simp: writes_def dest: spec [of _ ?s0])
  from calm_completes [of ?chrome tmpDir ?p "now_start calm"] t
    tryBlock_client [of calm plainConfig ?chrome tmpDir ?p "now_start calm" ?s0]
  have r1: "runStatus s1 = complete" "client s1"
    by (auto simp: ensures_def calm_def quiet_def dest: spec [of _ ?s0])
  have l0: "logged ?s0 = [lit ''Created temporary Chrome profile at '' @ tmpDir]"
    by (simp add: entered_def calm_def quiet_def plainConfig_def)
  have "logged (snd (steps calm sayOk init)) =
     [lit ''Created temporary Chrome profile at '' @ tmpDir,
      lit ''Copied '' @ showInt 3 @ lit '' cookies from Chrome profile '' @ lit ''Default'',
      lit ''Cleanup complete '' @ [bullet] @ lit '' '' @ showInt 1 @ lit ''.'' @ showInt 6 @ lit ''s total'']"
    unfolding st
    using t x l1 r1 l0
    by (simp add: guarded_def finallyBlock_def Let_def act_defs calm_def plainConfig_def lit_def)
  then show ?thesis
    by (simp add: sink_def run_logged sayOk_def)
qed

subsection \<open>Registration of the termination hooks\<close>

lemma exceptTrace_refl [simp]: "exceptTrace s s"
  by (simp add: exceptTrace_def)

lemma tryBlock_ignores_hooks:
  "tryBlock (E\<lparr>registerTerminationHooks := r\<rparr>) config chrome dir p st = tryBlock E config chrome dir p st"
  by (simp add: tryBlock_def session_def cong: if_cong)

lemma attempt_ignores_hooks:
  "attempt (E\<lparr>registerTerminationHooks := r\<rparr>) config chrome p = attempt E config chrome p"
  by (simp add: attempt_def sched_defs)

lemma tryBlock_exceptTrace:
  "agree exceptTrace (tryBlock E config chrome dir p st) (tryBlock E config chrome dir p st)"
  unfolding tryBlock_def
  apply (rule agree_andThen, rule agree_exceptTrace(1))
  apply (rule agree_andThen)
   apply (simp add: agree_def exceptTrace_def assign_def)
  apply (rule session_exceptTrace)
  done

lemma catchBlock_exceptTrace:
  "exceptTrace s s' \<Longrightarrow> devtoolsTrace E = devtoolsTrace E'
     \<Longrightarrow> exceptTrace (catchBlock E config e s) (catchBlock E' config e s')"
  by (simp add: exceptTrace_def catchBlock_def Let_def logger_def split: thrown.splits option.splits)

lemma finallyBlock_exceptTrace:
  "exceptTrace s s' \<Longrightarrow> exceptTrace (finallyBlock (E\<lparr>registerTerminationHooks := r\<rparr>) config chrome dir st hooks s)
                               (finallyBlock (E\<lparr>registerTerminationHooks := r'\<rparr>) config chrome dir st hooks' s')"
  by (simp add: exceptTrace_def finallyBlock_def Let_def act_defs)

lemma guarded_exceptTrace:
  assumes "exceptTrace s s'"
  shows "fst (guarded (E\<lparr>registerTerminationHooks := r\<rparr>) config chrome dir p hooks s)
           = fst (guarded (E\<lparr>registerTerminationHooks := r'\<rparr>) config chrome dir p hooks' s')"
    and "exceptTrace (snd (guarded (E\<lparr>registerTerminationHooks := r\<rparr>) config chrome dir p hooks s))
           (snd (guarded (E\<lparr>registerTerminationHooks := r'\<rparr>) config chrome dir p hooks' s'))"
proof -
  obtain x s1 where t: "tryBlock E config chrome dir p (now_start E) s = (x, s1)"
    by (cases "tryBlock E config chrome dir p (now_start E) s")
  obtain x' s1' where t': "tryBlock E config chrome dir p (now_start E) s' = (x', s1')"
    by (cases "tryBlock E config chrome dir p (now_start E) s'")
  from tryBlock_exceptTrace [of E config chrome dir p "now_start E", unfolded agree_def, rule_format, OF assms] t t'
  have eq: "x' = x" and R1: "exceptTrace s1 s1'" by simp_all
  show "fst (guarded (E\<lparr>registerTerminationHooks := r\<rparr>) config chrome dir p hooks s)
           = fst (guarded (E\<lparr>registerTerminationHooks := r'\<rparr>) config chrome dir p hooks' s')"
    and "exceptTrace (snd (guarded (E\<lparr>registerTerminationHooks := r\<rparr>) config chrome dir p hooks s))
           (snd (guarded (E\<lparr>registerTerminationHooks := r'\<rparr>) config chrome dir p hooks' s'))"
    using t t' eq R1
    by (cases x; simp add: guarded_def Let_def tryBlock_ignores_hooks finallyBlock_exceptTrace
          catchBlock_exceptTrace)+
qed

lemma filter_keep: "\<forall>x \<in> set xs. P x \<Longrightarrow> filter P xs = xs"
  by (induction xs) auto

lemma hooks_outcome_and_sink:
  assumes "says r = says r'" "gives r = Inl e" "gives r' = Inr ()"
  shows "fst (steps (E\<lparr>registerTerminationHooks := r\<rparr>) opts init)
           = fst (steps (E\<lparr>registerTerminationHooks := r'\<rparr>) opts init)"
    and "logged (snd (steps (E\<lparr>registerTerminationHooks := r\<rparr>) opts init))
           = logged (snd (steps (E\<lparr>registerTerminationHooks := r'\<rparr>) opts init))"
proof -
  let ?E = "E\<lparr>registerTerminationHooks := r\<rparr>" and ?E' = "E\<lparr>registerTerminationHooks := r'\<rparr>"
  have "fst (steps ?E opts init) = fst (steps ?E' opts init)
        \<and> logged (snd (steps ?E opts init)) = logged (snd (steps ?E' opts init))"
  proof (cases rule: run_cases [where opts = opts and E = E])
    case invalid
    then show ?thesis by (simp add: steps_invalid)
  next
    case (unresolved p e)
    then show ?thesis by (simp add: steps_unresolved [of opts p _ e])
  next
    case (no_dir p config e)
    then show ?thesis by (auto simp: steps_def validPrompt_def act_defs)
  next
    case (no_launch p config d e)
    then show ?thesis by (auto simp: steps_def validPrompt_def act_defs)
  next
    case (launched p config d chrome)
    have e: "exceptTrace (entered ?E config d init) (entered ?E' config d init)"
      using assms(1) by (simp add: entered_def exceptTrace_def)
    from launched have s: "steps ?E opts init = guarded ?E config chrome d p False (entered ?E config d init)"
      "steps ?E' opts init = guarded ?E' config chrome d p True (entered ?E' config d init)"
      using steps_launched [of opts p ?E config d chrome init] steps_launched [of opts p ?E' config d chrome init]
        assms(2,3)
      by simp_all
    from guarded_exceptTrace [OF e, where E = E and r = r and r' = r' and hooks = False and hooks' = True
        and chrome = chrome and p = p]
    show ?thesis unfolding s by (simp add: exceptTrace_def)
  qed
  then show "fst (steps ?E opts init) = fst (steps ?E' opts init)"
    and "logged (snd (steps ?E opts init)) = logged (snd (steps ?E' opts init))"
    by simp_all
qed


lemma hooks_calls:
  assumes "gives r = Inl e" "gives r' = Inr ()"
  shows "map fst (trace (snd (steps (E\<lparr>registerTerminationHooks := r\<rparr>) opts init)))
           = filter (\<lambda>c. c \<noteq> RemoveTerminationHooks)
               (map fst (trace (snd (steps (E\<lparr>registerTerminationHooks := r'\<rparr>) opts init))))"
proof -
  let ?E = "E\<lparr>registerTerminationHooks := r\<rparr>" and ?E' = "E\<lparr>registerTerminationHooks := r'\<rparr>"
  show ?thesis
  proof (cases rule: run_cases [where opts = opts and E = E])
    case invalid
    then show ?thesis by (simp add: steps_invalid)
  next
    case (unresolved p e)
    then show ?thesis by (simp add: steps_unresolved [of opts p _ e])
  next
    case (no_dir p config e)
    then show ?thesis
      using steps_no_dir [of opts p ?E config e init] steps_no_dir [of opts p ?E' config e init]
      by simp
  next
    case (no_launch p config d e)
    then show ?thesis
      using steps_no_launch [of opts p ?E config d e init] steps_no_launch [of opts p ?E' config d e init]
      by simp
  next
    case (launched p config d chrome)
    have t: "trace (snd (steps ?E opts init)) =
        [(Mkdtemp, Returned), (LaunchChrome d, Returned),
         (RegisterTerminationHooks d (keepBrowser config), Threw e)]
        @ upToFailure (attempt E config chrome p)
        @ cleanup E config d (how (gives (connectToChrome E)) = Returned) False"
      using run_trace [of opts p ?E config d chrome] launched assms
      by (simp add: run_trace_steps attempt_ignores_hooks cleanup_def cong: if_cong)
    have t': "trace (snd (steps ?E' opts init)) =
        [(Mkdtemp, Returned), (LaunchChrome d, Returned),
         (RegisterTerminationHooks d (keepBrowser config), Returned)]
        @ upToFailure (attempt E config chrome p)
        @ cleanup E config d (how (gives (connectToChrome E)) = Returned) True"
      using run_trace [of opts p ?E' config d chrome] launched assms
      by (simp add: run_trace_steps attempt_ignores_hooks cleanup_def cong: if_cong)
    have "\<forall>c \<in> set (map fst (upToFailure (attempt E config chrome p))). c \<noteq> RemoveTerminationHooks"
      using attempt_only(5) [of _ E config chrome p] by auto
    from filter_keep [OF this] show ?thesis
      unfolding t t' by (simp add: calls_cleanup)
  qed
qed

text \<open>
  Claim C8, as amended. A failure of \<^verbatim>\<open>registerTerminationHooks\<close> is not fatal and is
  ignored silently: the run in which the registration throws returns or throws exactly
  what the run in which it succeeds does, hands the sink exactly the same lines, so
  \<^verbatim>\<open>runBrowserMode\<close> itself writes nothing about the failure, and issues the same calls
  except that nothing is deregistered during cleanup.
\<close>

theorem hook_registration_failure_is_ignored_silently:
  "outcome (runBrowserMode (E\<lparr>registerTerminationHooks := \<lparr>says = L, gives = Inl e\<rparr>\<rparr>) opts)
     = outcome (runBrowserMode (E\<lparr>registerTerminationHooks := \<lparr>says = L, gives = Inr ()\<rparr>\<rparr>) opts)
   \<and> sink (runBrowserMode (E\<lparr>registerTerminationHooks := \<lparr>says = L, gives = Inl e\<rparr>\<rparr>) opts)
     = sink (runBrowserMode (E\<lparr>registerTerminationHooks := \<lparr>says = L, gives = Inr ()\<rparr>\<rparr>) opts)
   \<and> calls (runBrowserMode (E\<lparr>registerTerminationHooks := \<lparr>says = L, gives = Inl e\<rparr>\<rparr>) opts)
     = filter (\<lambda>c. c \<noteq> RemoveTerminationHooks)
         (calls (runBrowserMode (E\<lparr>registerTerminationHooks := \<lparr>says = L, gives = Inr ()\<rparr>\<rparr>) opts))"
proof -
  let ?r = "\<lparr>says = L, gives = Inl e\<rparr> :: unit reply" and ?r' = "\<lparr>says = L, gives = Inr ()\<rparr> :: unit reply"
  have a: "says ?r = says ?r'" "gives ?r = Inl e" "gives ?r' = Inr ()" by simp_all
  from hooks_outcome_and_sink [OF a, of E opts] hooks_calls [OF a(2,3), of E opts]
  show ?thesis
    by (simp add: outcome_def sink_def calls_def run_fst run_logged run_trace_steps)
qed

text \<open>
  The claim C8 as stated fails: below, the registration throws, the call goes on and
  returns its result, and the sink holds exactly the three lines of the run in which the
  registration succeeded; none reports the failure.
\<close>

theorem hook_failure_counterexample:
  "gives (registerTerminationHooks hookless) = Inl hookError
   \<and> logSupplied sayOk
   \<and> outcome (runBrowserMode hookless sayOk) = Inr okResult
   \<and> sink (runBrowserMode hookless sayOk) =
       [lit ''Created temporary Chrome profile at '' @ tmpDir,
        lit ''Copied '' @ showInt 3 @ lit '' cookies from Chrome profile '' @ lit ''Default'',
        lit ''Cleanup complete '' @ [bullet] @ lit '' '' @ showInt 1 @ lit ''.'' @ showInt 6 @ lit ''s total'']"
proof -
  have h: "hookless = calm\<lparr>registerTerminationHooks := \<lparr>says = [], gives = Inl hookError\<rparr>\<rparr>"
    "calm = calm\<lparr>registerTerminationHooks := \<lparr>says = [], gives = Inr ()\<rparr>\<rparr>"
    by (simp_all add: hookless_def failing_def calm_def quiet_def)
  have a: "says \<lparr>says = [], gives = Inl hookError :: thrown + unit\<rparr> = says \<lparr>says = [], gives = Inr () :: thrown + unit\<rparr>"
    "gives \<lparr>says = [], gives = Inl hookError :: thrown + unit\<rparr> = Inl hookError"
    "gives \<lparr>says = [], gives = Inr () :: thrown + unit\<rparr> = Inr ()"
    by simp_all
  from hooks_outcome_and_sink [OF a, of calm sayOk, folded h]
  have "outcome (runBrowserMode hookless sayOk) = outcome (runBrowserMode calm sayOk)"
    "sink (runBrowserMode hookless sayOk) = sink (runBrowserMode calm sayOk)"
    by (simp_all add: outcome_def sink_def run_fst run_logged)
  moreover have "gives (registerTerminationHooks hookless) = Inl hookError" "logSupplied sayOk"
    by (simp_all add: hookless_def failing_def sayOk_def)
  ultimately show ?thesis by (simp add: calm_outcome calm_sink)
qed

section \<open>Properties of the picker injection\<close>

text \<open>
  Claim C9. Injecting the picker into a page whose marker \<^verbatim>\<open>pickOverlayInjected\<close> is set
  changes nothing in the page: no new function object, no other \<^verbatim>\<open>pick\<close>, no listener.
  After any injection the marker is set, so injecting twice leaves the page as
  injecting once does, and a call of \<^verbatim>\<open>pick\<close> then installs the same listeners.
\<close>

theorem picker_injection_is_idempotent:
  "(pickOverlayInjected scope = Some True \<longrightarrow> injectPick scope = scope)
   \<and> pickOverlayInjected (injectPick scope) = Some True
   \<and> injectPick (injectPick scope) = injectPick scope
   \<and> listeners (injectPick scope) = listeners scope
   \<and> callPick (injectPick (injectPick scope)) = callPick (injectPick scope)"
  by (simp add: injectPick_def)

theorem picker_injection_witness:
  "pickOverlayInjected (injectPick blankPage) = Some True
   \<and> injectPick (injectPick blankPage) = injectPick blankPage
   \<and> injectPick blankPage = \<lparr>pickOverlayInjected = Some True, pick = Some 0, created = 1, listeners = []\<rparr>"
proof -
  have m: "pickOverlayInjected (injectPick blankPage) = Some True"
    by (simp add: injectPick_def blankPage_def)
  from picker_injection_is_idempotent [of "injectPick blankPage"] m
  have "injectPick (injectPick blankPage) = injectPick blankPage" by simp
  moreover have "injectPick blankPage = \<lparr>pickOverlayInjected = Some True, pick = Some 0, created = 1, listeners = []\<rparr>"
    by (simp add: injectPick_def blankPage_def)
  ultimately show ?thesis using m by simp
qed

end
